(* ===== verification/Prelude.thy ===== *)
theory Prelude
  imports Main
begin

text \<open>
  Shared vocabulary of the st-form development: the JavaScript values a field
  can hold (the type \<open>IValidation.value\<close> of
  \<open>src/component/validation/validation.ts\<close>), JavaScript strict equality on
  them, plain JavaScript objects (\<open>{[key: string]: any}\<close>) as association
  lists with assignment in place, and promise settlement, where the first
  of \<open>resolve\<close>/\<open>reject\<close> wins.  The collection \<open>js_simps\<close> gathers the
  evaluation rules the component theories share.
\<close>

named_theorems js_simps "evaluation rules for the JavaScript primitives of the model"

type_synonym call_id = nat
type_synonym obj_id = nat

subsection \<open>Field values and strict equality\<close>

text \<open>
  \<open>boolean | string | number | Date | undefined | null\<close>.  A number is an
  integer or NaN (the value of \<open>valueAsNumber\<close> on an empty number input);
  a \<open>Date\<close> is an object, so it is represented by its identity.
\<close>

datatype fvalue =
    FBool bool
  | FStr string
  | FNum int
  | FNaN
  | FDate obj_id
  | FNull
  | FUndef

text \<open>JavaScript \<open>===\<close>: NaN equals nothing, objects are equal only to themselves.\<close>

fun js_strict_eq :: "fvalue \<Rightarrow> fvalue \<Rightarrow> bool" where
  "js_strict_eq (FBool a) (FBool b) = (a = b)"
| "js_strict_eq (FStr a) (FStr b) = (a = b)"
| "js_strict_eq (FNum a) (FNum b) = (a = b)"
| "js_strict_eq (FDate a) (FDate b) = (a = b)"
| "js_strict_eq FNull FNull = True"
| "js_strict_eq FUndef FUndef = True"
| "js_strict_eq _ _ = False"

text \<open>A JavaScript value as it appears in a form-state snapshot.\<close>

datatype jsval =
    JV fvalue
  | JObj "(string \<times> jsval) list"

subsection \<open>Objects as association lists\<close>

text \<open>
  \<open>o[k] = v\<close> on a plain object: an existing key keeps its position and
  takes the new value, a new key is appended (string keys, in insertion
  order).
\<close>

fun obj_set :: "string \<Rightarrow> 'v \<Rightarrow> (string \<times> 'v) list \<Rightarrow> (string \<times> 'v) list" where
  "obj_set k v [] = [(k, v)]"
| "obj_set k v ((k', v') # kvs) =
     (if k = k' then (k, v) # kvs else (k', v') # obj_set k v kvs)"

abbreviation obj_get :: "(string \<times> 'v) list \<Rightarrow> string \<Rightarrow> 'v option" where
  "obj_get ob k \<equiv> map_of ob k"

abbreviation obj_keys :: "(string \<times> 'v) list \<Rightarrow> string list" where
  "obj_keys ob \<equiv> map fst ob"

subsection \<open>Promises\<close>

text \<open>
  The outcome of a \<open>validate()\<close> call as its caller sees it: resolved with a
  boolean, or rejected with a JavaScript error.  Settling a call that is
  already settled does nothing, as a second \<open>resolve\<close> or \<open>reject\<close> of a
  promise does.
\<close>

datatype js_error = TypeError

datatype outcome = Resolved bool | Rejected js_error

definition settle :: "call_id \<Rightarrow> outcome \<Rightarrow> (call_id \<rightharpoonup> outcome) \<Rightarrow> (call_id \<rightharpoonup> outcome)" where
  "settle c r m = (case m c of None \<Rightarrow> m(c \<mapsto> r) | Some _ \<Rightarrow> m)"

subsection \<open>Form controls\<close>

text \<open>
  An element of a form's \<open>elements\<close> collection as \<open>Form\<close> and
  \<open>InputValidation\<close> see it: its interface (\<open>HTMLButtonElement\<close>,
  \<open>HTMLInputElement\<close>, ...), its native \<open>type\<close>, \<open>name\<close>, \<open>value\<close>,
  \<open>checked\<close>, \<open>disabled\<close> and \<open>readOnly\<close>, and the expando properties
  the library reads or writes: lower-case \<open>readonly\<close> (which the DOM never
  sets), the components installed under property names (\<open>e_props\<close>, the
  identity of a \<open>Validation\<close>), \<open>FORM_IGNORE\<close> and the result of the
  \<open>FORM_VALUE_FUNCTION\<close> getter when there is one.
\<close>

datatype etag = EInput | EButton | ETextArea | ESelect | EOther

record felem =
  e_tag :: etag
  e_type :: string
  e_name :: string
  e_value :: fvalue
  e_checked :: bool
  e_disabled :: bool
  e_readOnly :: bool
  e_readonly :: bool
  e_props :: "(string \<times> nat) list"
  e_formIgnore :: bool
  e_valueFunction :: "jsval option"

subsection \<open>Lemmas\<close>

lemma js_strict_eq_refl [simp]: "js_strict_eq x x \<longleftrightarrow> x \<noteq> FNaN"
  by (cases x) auto

lemma js_strict_eq_imp_eq: "js_strict_eq x y \<Longrightarrow> x = y"
  by (induction x y rule: js_strict_eq.induct) auto

lemma map_of_obj_set [simp]: "map_of (obj_set k v ob) = (map_of ob)(k \<mapsto> v)"
  by (induction ob) (auto simp: fun_eq_iff)

lemma keys_obj_set:
  "obj_keys (obj_set k v ob) = (if k \<in> set (obj_keys ob) then obj_keys ob else obj_keys ob @ [k])"
proof (induction ob)
  case Nil
  then show ?case by simp
next
  case (Cons p ob)
  then show ?case by (cases p) auto
qed

lemma set_keys_obj_set [simp]: "set (obj_keys (obj_set k v ob)) = insert k (set (obj_keys ob))"
  by (auto simp add: keys_obj_set simp del: set_map)

lemma distinct_keys_obj_set [simp]: "distinct (obj_keys ob) \<Longrightarrow> distinct (obj_keys (obj_set k v ob))"
  by (simp add: keys_obj_set)

lemma settle_keeps [simp]: "m c = Some r' \<Longrightarrow> settle c r m = m"
  by (simp add: settle_def)

lemma settle_new [simp]: "m c = None \<Longrightarrow> settle c r m = m(c \<mapsto> r)"
  by (simp add: settle_def)

lemma settle_other [simp]: "c' \<noteq> c \<Longrightarrow> settle c r m c' = m c'"
  by (simp add: settle_def split: option.split)

lemma settle_mono: "m c' = Some r' \<Longrightarrow> settle c r m c' = Some r'"
  by (cases "c' = c") (auto simp: settle_def split: option.split)

lemma settle_dom [simp]: "dom (settle c r m) = insert c (dom m)"
  by (auto simp: settle_def split: option.splits)

text \<open>Lists: a found element is a member that satisfies the test.\<close>

lemma find_SomeD: "find P xs = Some x \<Longrightarrow> x \<in> set xs \<and> P x"
  by (induction xs) (auto split: if_splits)

lemma find_append_skip: "\<forall>x \<in> set xs. \<not> P x \<Longrightarrow> find P (xs @ ys) = find P ys"
  by (induction xs) auto

declare js_strict_eq.simps [js_simps] obj_set.simps [js_simps] settle_def [js_simps]

end
