(* ===== verification/Form.thy ===== *)
theory Form
  imports Prelude
begin

text \<open>
  The form aggregator, class \<open>Form\<close> of \<open>src/component/form/form.tsx\<close>:
  field discovery (\<open>getElements\<close>), sub-form discovery (\<open>getSubForm\<close>, with
  its walk up the components' logical parents) and the form-state snapshot
  (\<open>getState\<close>).  The DOM a form reads is the record \<open>dom\<close>: the \<open>Form\<close>
  components by identity, each with its name, its element collection and the
  \<open>FROM\<close> registrations of the \<open>form\<close> elements below it in document order,
  and the logical parent of every component.
\<close>

record form =
  f_name :: string
  f_elements :: "felem list"
  f_descendants :: "nat option list"

record dom =
  d_forms :: "nat \<rightharpoonup> form"
  d_parent :: "nat \<rightharpoonup> nat"

subsection \<open>getElements\<close>

text \<open>
  Elements carrying a \<open>Validation\<close> under the configured property name, kept
  unless \<open>element.disabled\<close> or \<open>element.readonly\<close> holds; the latter is the
  lower-case expando, not the DOM's \<open>readOnly\<close>.
\<close>

fun getElements :: "string \<Rightarrow> felem list \<Rightarrow> nat list" where
  "getElements p [] = []"
| "getElements p (e # es) =
     (case map_of (e_props e) p of
        Some c \<Rightarrow> (if \<not> e_disabled e \<and> \<not> e_readonly e then c # getElements p es else getElements p es)
      | None \<Rightarrow> getElements p es)"

subsection \<open>getSubForm\<close>

text \<open>
  The \<open>while (!!parent)\<close> walk from a nested form's logical parent to the
  root, counting how often it meets \<open>this\<close> (each meeting pushes the nested
  form once).  Nothing bounds the walk, so it is a partial function:
  \<open>None\<close> is a walk that never ends.
\<close>

partial_function (option) count_chain :: "(nat \<rightharpoonup> nat) \<Rightarrow> nat \<Rightarrow> nat option \<Rightarrow> nat option" where
  "count_chain par t p =
     (case p of
        None \<Rightarrow> Some 0
      | Some a \<Rightarrow> Option.bind (count_chain par t (par a)) (\<lambda>k. Some ((if a = t then 1 else 0) + k)))"

text \<open>
  The loop over \<open>querySelectorAll('form')\<close>: a form element without a
  registered \<open>Form\<close> is logged and skipped, \<open>this\<close> is skipped, any other
  form is pushed once per meeting of \<open>this\<close> on its parent chain.
\<close>

fun collect_subforms :: "dom \<Rightarrow> nat \<Rightarrow> nat option list \<Rightarrow> (nat \<times> form) list option" where
  "collect_subforms d t [] = Some []"
| "collect_subforms d t (p # ps) =
     (case p of
        None \<Rightarrow> collect_subforms d t ps
      | Some f \<Rightarrow>
          (case d_forms d f of
             None \<Rightarrow> collect_subforms d t ps
           | Some fm \<Rightarrow>
               (if f = t then collect_subforms d t ps
                else Option.bind (count_chain (d_parent d) t (d_parent d f))
                       (\<lambda>k. map_option (\<lambda>rest. replicate k (f, fm) @ rest) (collect_subforms d t ps)))))"

definition getSubForm :: "dom \<Rightarrow> nat \<Rightarrow> form \<Rightarrow> (nat \<times> form) list option" where
  "getSubForm d t fm = collect_subforms d t (f_descendants fm)"

subsection \<open>getState\<close>

text \<open>\<open>radios[name] = ...\<close>: the keys of the \<open>radios\<close> object, in first-assignment order.\<close>

definition add_key :: "string \<Rightarrow> string list \<Rightarrow> string list" where
  "add_key k ks = (if k \<in> set ks then ks else ks @ [k])"

text \<open>
  The first loop of \<open>getState\<close>: buttons and ignored elements are skipped,
  a value getter wins, a named radio is deferred, a named checkbox gives its
  \<open>checked\<close>, anything else its \<open>value\<close>.
\<close>

fun scan_elements :: "felem list \<Rightarrow> (string \<times> jsval) list \<Rightarrow> string list \<Rightarrow> (string \<times> jsval) list \<times> string list" where
  "scan_elements [] st rs = (st, rs)"
| "scan_elements (e # es) st rs =
     (if e_tag e = EButton \<or> e_formIgnore e then scan_elements es st rs
      else case e_valueFunction e of
        Some v \<Rightarrow> scan_elements es (obj_set (e_name e) v st) rs
      | None \<Rightarrow>
          (if e_tag e = EInput \<and> e_type e = ''radio'' \<and> e_name e \<noteq> '''' then
             scan_elements es st (add_key (e_name e) rs)
           else if e_tag e = EInput \<and> e_type e = ''checkbox'' \<and> e_name e \<noteq> '''' then
             scan_elements es (obj_set (e_name e) (JV (FBool (e_checked e))) st) rs
           else scan_elements es (obj_set (e_name e) (JV (e_value e)) st) rs))"

text \<open>
  \<open>elements.namedItem(name).value\<close>: with a single element of that name
  \<open>namedItem\<close> returns the element itself, whose \<open>value\<close> is read whether
  it is checked or not; with several it returns a \<open>RadioNodeList\<close>, whose
  \<open>value\<close> is that of the first checked radio button, or the empty string.
\<close>

definition radio_value :: "felem list \<Rightarrow> string \<Rightarrow> jsval" where
  "radio_value els n =
     (case filter (\<lambda>e. e_name e = n) els of
        [e] \<Rightarrow> JV (e_value e)
      | es \<Rightarrow> (case find (\<lambda>e. e_tag e = EInput \<and> e_type e = ''radio'' \<and> e_checked e) es of
               Some e \<Rightarrow> JV (e_value e)
             | None \<Rightarrow> JV (FStr '''')))"

text \<open>The form's own entries: the first loop, then the deferred radio groups.\<close>

definition flat_state :: "felem list \<Rightarrow> (string \<times> jsval) list" where
  "flat_state els =
     (let (st, rs) = scan_elements els [] [] in fold (\<lambda>n acc. obj_set n (radio_value els n) acc) rs st)"

text \<open>
  \<open>getState\<close> of a list of forms, recursing into each form's sub-forms, whose
  states are stored under their names after the form's own entries.
\<close>

partial_function (option) getState_list :: "dom \<Rightarrow> (nat \<times> form) list \<Rightarrow> (string \<times> jsval) list list option" where
  "getState_list d fs =
     (case fs of
        [] \<Rightarrow> Some []
      | p # rest \<Rightarrow>
          Option.bind (getSubForm d (fst p) (snd p)) (\<lambda>subs.
          Option.bind (getState_list d subs) (\<lambda>sts.
          Option.bind (getState_list d rest) (\<lambda>rests.
            Some (fold (\<lambda>(n, s) acc. obj_set n (JObj s) acc) (zip (map (f_name \<circ> snd) subs) sts)
                    (flat_state (f_elements (snd p))) # rests)))))"

definition getState :: "dom \<Rightarrow> nat \<Rightarrow> form \<Rightarrow> (string \<times> jsval) list option" where
  "getState d t fm = (case getState_list d [(t, fm)] of Some [s] \<Rightarrow> Some s | _ \<Rightarrow> None)"

subsection \<open>Chains, names and example forms\<close>

text \<open>
  The ancestors of a component, nearest first, with \<open>n\<close> steps of fuel:
  \<open>None\<close> when the chain is longer than \<open>n\<close> (or cyclic).  It bounds the
  \<open>while (!!parent)\<close> walk of \<open>getSubForm\<close>.
\<close>

fun ancestors :: "(nat \<rightharpoonup> nat) \<Rightarrow> nat \<Rightarrow> nat option \<Rightarrow> nat list option" where
  "ancestors par 0 p = (case p of None \<Rightarrow> Some [] | Some _ \<Rightarrow> None)"
| "ancestors par (Suc n) p = (case p of None \<Rightarrow> Some [] | Some a \<Rightarrow> map_option (Cons a) (ancestors par n (par a)))"

definition chains_end :: "dom \<Rightarrow> nat \<Rightarrow> nat option list \<Rightarrow> bool" where
  "chains_end d n ps = list_all (\<lambda>p. case p of None \<Rightarrow> True | Some g \<Rightarrow> ancestors (d_parent d) n (d_parent d g) \<noteq> None) ps"

text \<open>The names of the elements the first loop of \<open>getState\<close> does not skip.\<close>

definition kept_names :: "felem list \<Rightarrow> string set" where
  "kept_names es = e_name ` {e \<in> set es. \<not> (e_tag e = EButton \<or> e_formIgnore e)}"

definition ex_el :: "string \<Rightarrow> string \<Rightarrow> felem" where
  "ex_el n v = \<lparr>e_tag = EInput, e_type = ''text'', e_name = n, e_value = FStr v, e_checked = False,
     e_disabled = False, e_readOnly = False, e_readonly = False, e_props = [], e_formIgnore = False,
     e_valueFunction = None\<rparr>"

definition ex_radio :: "string \<Rightarrow> string \<Rightarrow> bool \<Rightarrow> felem" where
  "ex_radio n v c = (ex_el n v)\<lparr>e_type := ''radio'', e_checked := c\<rparr>"

definition ex_top :: form where
  "ex_top = \<lparr>f_name = ''form'', f_elements = [ex_el ''a'' ''1''], f_descendants = [Some 1]\<rparr>"

definition ex_nested :: dom where
  "ex_nested = \<lparr>d_forms = [0 \<mapsto> ex_top, 1 \<mapsto> \<lparr>f_name = ''child'', f_elements = [ex_el ''b'' ''2''], f_descendants = []\<rparr>],
                d_parent = [1 \<mapsto> 0]\<rparr>"

definition ex_three :: dom where
  "ex_three = \<lparr>d_forms = [0 \<mapsto> ex_top\<lparr>f_descendants := [Some 1, Some 2]\<rparr>,
                          1 \<mapsto> \<lparr>f_name = ''child'', f_elements = [ex_el ''b'' ''2''], f_descendants = [Some 2]\<rparr>,
                          2 \<mapsto> \<lparr>f_name = ''grandchild'', f_elements = [ex_el ''c'' ''3''], f_descendants = []\<rparr>],
               d_parent = [1 \<mapsto> 0, 2 \<mapsto> 1]\<rparr>"

lemmas form_ops = getState_def getState_list.simps getSubForm_def count_chain.simps flat_state_def
  add_key_def radio_value_def

lemmas form_examples = ex_el_def ex_radio_def ex_top_def ex_nested_def ex_three_def

subsection \<open>Lemmas\<close>

lemma kept_names_Cons:
  "kept_names (e # es) = (if e_tag e = EButton \<or> e_formIgnore e then kept_names es else insert (e_name e) (kept_names es))"
  by (auto simp: kept_names_def)

lemma count_chain_ancestors:
  "ancestors par n p = Some as \<Longrightarrow> count_chain par t p = Some (count_list as t)"
proof (induction n arbitrary: p as)
  case 0
  then show ?case by (cases p) (simp_all add: count_chain.simps)
next
  case (Suc n)
  show ?case
  proof (cases p)
    case None
    with Suc.prems show ?thesis by (simp add: count_chain.simps)
  next
    case (Some a)
    with Suc.prems obtain as' where as': "ancestors par n (par a) = Some as'" and "as = a # as'" by auto
    with Suc.IH[OF as'] Some show ?thesis by (simp add: count_chain.simps)
  qed
qed

lemma collect_subforms_set:
  assumes "chains_end d n ps"
  shows "\<exists>subs. collect_subforms d t ps = Some subs \<and>
     set subs = {(g, gm). Some g \<in> set ps \<and> d_forms d g = Some gm \<and> g \<noteq> t \<and>
                 (\<exists>as. ancestors (d_parent d) n (d_parent d g) = Some as \<and> t \<in> set as)}"
  using assms
proof (induction ps)
  case Nil
  then show ?case by simp
next
  case (Cons p ps)
  then obtain subs where IH: "collect_subforms d t ps = Some subs"
    and sIH: "set subs = {(g, gm). Some g \<in> set ps \<and> d_forms d g = Some gm \<and> g \<noteq> t \<and>
                 (\<exists>as. ancestors (d_parent d) n (d_parent d g) = Some as \<and> t \<in> set as)}"
    by (auto simp: chains_end_def)
  show ?case
  proof (cases p)
    case None
    with IH sIH show ?thesis by auto
  next
    case (Some g)
    show ?thesis
    proof (cases "d_forms d g")
      case None
      with Some IH sIH show ?thesis by auto
    next
      case (Some gm)
      note g = \<open>p = Some g\<close>
      obtain as where as: "ancestors (d_parent d) n (d_parent d g) = Some as"
        using Cons.prems g by (auto simp: chains_end_def)
      have cc: "count_chain (d_parent d) t (d_parent d g) = Some (count_list as t)"
        by (rule count_chain_ancestors[OF as])
      show ?thesis
        using g Some IH sIH as cc by (auto simp: count_list_0_iff)
    qed
  qed
qed

lemma scan_elements_keys:
  "set (obj_keys (fst (scan_elements es st rs))) \<subseteq> set (obj_keys st) \<union> kept_names es
   \<and> set (snd (scan_elements es st rs)) \<subseteq> set rs \<union> kept_names es"
proof (induction es arbitrary: st rs)
  case Nil
  then show ?case by simp
next
  case (Cons e es)
  show ?case
  proof (cases "e_tag e = EButton \<or> e_formIgnore e")
    case True
    then show ?thesis using Cons.IH[of st rs] by (auto simp: kept_names_Cons)
  next
    case skip: False
    show ?thesis
    proof (cases "e_valueFunction e")
      case (Some v)
      then show ?thesis using skip Cons.IH[of "obj_set (e_name e) v st" rs]
        by (auto simp: kept_names_Cons simp del: set_map)
    next
      case None
      have r: "set (add_key (e_name e) rs) = insert (e_name e) (set rs)" by (auto simp: add_key_def)
      show ?thesis
        using skip None Cons.IH[of st "add_key (e_name e) rs"]
          Cons.IH[of "obj_set (e_name e) (JV (FBool (e_checked e))) st" rs]
          Cons.IH[of "obj_set (e_name e) (JV (e_value e)) st" rs] r
        by (auto simp: kept_names_Cons simp del: set_map)
    qed
  qed
qed

lemma fold_obj_set_keys:
  "set (obj_keys (fold (\<lambda>n acc. obj_set n (g n) acc) rs st)) = set rs \<union> set (obj_keys st)"
  by (induction rs arbitrary: st) (auto simp del: set_map)

lemma flat_state_keys: "set (obj_keys (flat_state els)) \<subseteq> kept_names els"
proof -
  obtain st rs where sc: "scan_elements els [] [] = (st, rs)" by (cases "scan_elements els [] []")
  then have "set (obj_keys st) \<subseteq> kept_names els" "set rs \<subseteq> kept_names els"
    using scan_elements_keys[of els "[]" "[]"] by auto
  then show ?thesis using sc by (simp add: flat_state_def fold_obj_set_keys del: set_map)
qed

lemma fold_obj_set_lookup:
  "map_of (fold (\<lambda>n acc. obj_set n (f n) acc) rs st) k = (if k \<in> set rs then Some (f k) else map_of st k)"
  by (induction rs arbitrary: st) auto

lemma add_key_set: "set (add_key k ks) = insert k (set ks)"
  by (auto simp: add_key_def)

text \<open>The names the first loop of \<open>getState\<close> defers to the radio-group pass.\<close>

lemma scan_elements_radios:
  "set (snd (scan_elements els st rs)) = set rs \<union>
     e_name ` {e \<in> set els. \<not> (e_tag e = EButton \<or> e_formIgnore e) \<and> e_valueFunction e = None \<and>
        e_tag e = EInput \<and> e_type e = ''radio'' \<and> e_name e \<noteq> ''''}"
  by (induction els st rs rule: scan_elements.induct) (auto simp: add_key_set split: option.splits)

lemma flat_state_radio:
  assumes "e \<in> set els" "\<not> e_formIgnore e" "e_valueFunction e = None" "e_tag e = EInput"
    "e_type e = ''radio''" "e_name e \<noteq> ''''"
  shows "map_of (flat_state els) (e_name e) = Some (radio_value els (e_name e))"
proof -
  obtain st rs where sc: "scan_elements els [] [] = (st, rs)" by fastforce
  have "e_name e \<in> set rs" using scan_elements_radios[of els "[]" "[]"] assms sc by auto
  then show ?thesis by (simp add: flat_state_def sc fold_obj_set_lookup)
qed

text \<open>\<open>getState\<close> of a list of forms is the list of their \<open>getState\<close> results.\<close>

lemma getState_list_Cons:
  "getState_list d (p # rest) = Option.bind (getState d (fst p) (snd p)) (\<lambda>s. map_option (Cons s) (getState_list d rest))"
  by (simp add: getState_def getState_list.simps[of d "p # rest"] getState_list.simps[of d "[p]"]
                getState_list.simps[of d "[]"] split: option.splits Option.bind_splits)

lemma getState_list_those: "getState_list d fs = those (map (\<lambda>(j, g). getState d j g) fs)"
  by (induction fs) (simp_all add: getState_list.simps[of d "[]"] getState_list_Cons split: option.splits prod.splits)

lemma getState_unfold:
  "getState d t fm =
     Option.bind (getSubForm d t fm) (\<lambda>subs.
       map_option (\<lambda>sts. fold (\<lambda>(n, s) acc. obj_set n (JObj s) acc) (zip (map (f_name \<circ> snd) subs) sts)
                           (flat_state (f_elements fm)))
         (those (map (\<lambda>(j, g). getState d j g) subs)))"
  by (simp add: getState_def getState_list.simps[of d "[(t, fm)]"] getState_list.simps[of d "[]"]
        getState_list_those[symmetric, unfolded getState_def] split: option.splits Option.bind_splits)

lemma those_Some: "\<forall>x \<in> set xs. x \<noteq> None \<Longrightarrow> \<exists>ys. those xs = Some ys"
  by (induction xs) auto

text \<open>Parent chains: their length is bounded by the fuel, more fuel keeps them, and a chain through \<open>t\<close> is longer than \<open>t\<close>'s own.\<close>

lemma ancestors_length: "ancestors par n p = Some as \<Longrightarrow> length as \<le> n"
  by (induction n arbitrary: p as) (auto split: option.splits)

lemma ancestors_mono: "ancestors par n p = Some as \<Longrightarrow> n \<le> m \<Longrightarrow> ancestors par m p = Some as"
proof (induction n arbitrary: p as m)
  case 0
  then show ?case by (cases m) (simp_all split: option.splits)
next
  case (Suc n)
  then obtain m' where m: "m = Suc m'" "n \<le> m'" by (cases m) auto
  show ?case
  proof (cases p)
    case None
    with Suc.prems m show ?thesis by simp
  next
    case (Some a)
    with Suc.prems obtain as' where as': "ancestors par n (par a) = Some as'" "as = a # as'" by auto
    from Suc.IH[OF as'(1) m(2)] as'(2) Some m show ?thesis by simp
  qed
qed

lemma ancestors_suffix:
  "ancestors par n p = Some as \<Longrightarrow> t \<in> set as \<Longrightarrow> \<exists>bs. ancestors par n (par t) = Some bs \<and> length bs < length as"
proof (induction n arbitrary: p as)
  case 0
  then show ?case by (simp split: option.splits)
next
  case (Suc n)
  then obtain a as' where p: "p = Some a" and as': "ancestors par n (par a) = Some as'" and as: "as = a # as'"
    by (auto split: option.splits)
  show ?case
  proof (cases "t = a")
    case True
    have "ancestors par (Suc n) (par t) = Some as'"
      using ancestors_mono[OF as', of "Suc n"] True by (simp del: ancestors.simps)
    with as show ?thesis by (metis impossible_Cons le_less_linear length_Cons)
  next
    case False
    with Suc.prems as have "t \<in> set as'" by simp
    from Suc.IH[OF as' this] obtain bs where "ancestors par n (par t) = Some bs" "length bs < length as'" by blast
    with as show ?thesis by (metis ancestors_mono le_SucI order.refl length_Cons less_SucI)
  qed
qed

lemma chains_end_all: "\<forall>g. ancestors (d_parent d) n (d_parent d g) \<noteq> None \<Longrightarrow> chains_end d n ps"
  by (auto simp: chains_end_def list_all_iff split: option.splits)

text \<open>
  The recursion of \<open>getState\<close> into sub-forms ends when every parent chain
  does: a sub-form's chain runs through \<open>this\<close>, so it is strictly longer
  than \<open>this\<close>'s, and no chain is longer than the fuel.
\<close>

lemma getState_subs_Some:
  assumes "getSubForm d t fm = Some subs" and "\<forall>(g, gm) \<in> set subs. getState d g gm \<noteq> None"
  shows "getState d t fm \<noteq> None"
proof -
  obtain sts where "those (map (\<lambda>(j, g). getState d j g) subs) = Some sts"
    using those_Some[of "map (\<lambda>(j, g). getState d j g) subs"] assms(2) by fastforce
  with assms(1) show ?thesis by (subst getState_unfold) simp
qed

lemma getState_total:
  assumes chains: "\<forall>g. ancestors (d_parent d) n (d_parent d g) \<noteq> None"
  shows "\<forall>t fm as. ancestors (d_parent d) n (d_parent d t) = Some as \<and> n - length as = k \<longrightarrow> getState d t fm \<noteq> None"
proof (induction k rule: less_induct)
  case (less k)
  show ?case
  proof (intro allI impI, elim conjE)
    fix t fm as
    assume as: "ancestors (d_parent d) n (d_parent d t) = Some as" and k: "n - length as = k"
    obtain subs where subs: "getSubForm d t fm = Some subs"
      and set: "set subs = {(g, gm). Some g \<in> set (f_descendants fm) \<and> d_forms d g = Some gm \<and> g \<noteq> t \<and>
                   (\<exists>as. ancestors (d_parent d) n (d_parent d g) = Some as \<and> t \<in> set as)}"
      using collect_subforms_set[OF chains_end_all[OF chains], of t] unfolding getSubForm_def by blast
    have "getState d g gm \<noteq> None" if mem: "(g, gm) \<in> set subs" for g gm
    proof -
      obtain ag where ag: "ancestors (d_parent d) n (d_parent d g) = Some ag" "t \<in> set ag"
        using mem set by auto
      obtain bs where "ancestors (d_parent d) n (d_parent d t) = Some bs" "length bs < length ag"
        using ancestors_suffix[OF ag] by blast
      with as k ancestors_length[OF ag(1)] have "n - length ag < k" by simp
      with less.IH ag(1) show ?thesis by blast
    qed
    then show "getState d t fm \<noteq> None" by (intro getState_subs_Some[OF subs]) auto
  qed
qed

lemma fold_obj_set_pairs_other:
  "k \<notin> fst ` set ps \<Longrightarrow> map_of (fold (\<lambda>(n, s) acc. obj_set n (JObj s) acc) ps st) k = map_of st k"
  by (induction ps arbitrary: st) auto

lemma fold_obj_set_pairs_lookup:
  "k \<in> fst ` set ps \<Longrightarrow> \<exists>s'. map_of (fold (\<lambda>(n, s) acc. obj_set n (JObj s) acc) ps st) k = Some (JObj s')"
proof (induction ps arbitrary: st)
  case Nil
  then show ?case by simp
next
  case (Cons p ps)
  obtain n s0 where p: "p = (n, s0)" by fastforce
  show ?case
  proof (cases "k \<in> fst ` set ps")
    case True
    with Cons.IH p show ?thesis by simp
  next
    case False
    with Cons.prems p have "k = n" by auto
    with False p show ?thesis by (simp add: fold_obj_set_pairs_other)
  qed
qed

lemma those_length: "those xs = Some ys \<Longrightarrow> length ys = length xs"
  by (induction xs arbitrary: ys) (auto split: option.splits)

subsection \<open>Properties\<close>

text \<open>
  C15.  A name carried only by buttons and by elements marked \<open>FORM_IGNORE\<close>
  is absent from the form's own entries of the snapshot.
\<close>

theorem flat_state_form_ignore:
  assumes "\<forall>e \<in> set els. e_name e = n \<longrightarrow> e_tag e = EButton \<or> e_formIgnore e"
  shows "map_of (flat_state els) n = None"
proof -
  have "n \<notin> kept_names els" using assms by (auto simp: kept_names_def)
  then have "n \<notin> set (obj_keys (flat_state els))" using flat_state_keys by blast
  then show ?thesis by (simp add: map_of_eq_None_iff)
qed

text \<open>
  C14.  \<open>getElements\<close> returns exactly the \<open>Validation\<close> components
  installed under the configured property on elements that are neither
  \<open>disabled\<close> nor carry a truthy lower-case \<open>readonly\<close> property.
\<close>

theorem getElements_members:
  "c \<in> set (getElements p els) \<longleftrightarrow>
   (\<exists>e \<in> set els. map_of (e_props e) p = Some c \<and> \<not> e_disabled e \<and> \<not> e_readonly e)"
  by (induction els) (auto split: option.splits)

text \<open>
  C13.  When every parent chain of the forms below is finite,
  \<open>getSubForm\<close> terminates, and its result holds exactly the registered
  forms below other than \<open>this\<close> that have \<open>this\<close> anywhere on their
  parent chain, not only those whose nearest enclosing form is \<open>this\<close>.
\<close>

theorem getSubForm_members:
  assumes "chains_end d n (f_descendants fm)"
  shows "\<exists>subs. getSubForm d t fm = Some subs \<and>
     set subs = {(g, gm). Some g \<in> set (f_descendants fm) \<and> d_forms d g = Some gm \<and> g \<noteq> t \<and>
                 (\<exists>as. ancestors (d_parent d) n (d_parent d g) = Some as \<and> t \<in> set as)}"
  unfolding getSubForm_def by (rule collect_subforms_set[OF assms])

text \<open>
  C11.  When every parent chain ends, \<open>getState\<close> returns, and the snapshot
  is the form's own entries followed by the state of each sub-form that
  \<open>getSubForm\<close> returns, stored under the sub-form's name in that order.
\<close>

theorem getState_nested_form:
  assumes "\<forall>g. ancestors (d_parent d) n (d_parent d g) \<noteq> None"
  shows "\<exists>subs sts. getSubForm d t fm = Some subs \<and> those (map (\<lambda>(j, g). getState d j g) subs) = Some sts \<and>
           getState d t fm = Some (fold (\<lambda>(n, s) acc. obj_set n (JObj s) acc) (zip (map (f_name \<circ> snd) subs) sts)
                                   (flat_state (f_elements fm)))"
proof -
  obtain as where "ancestors (d_parent d) n (d_parent d t) = Some as" using assms by blast
  then have "getState d t fm \<noteq> None" using getState_total[OF assms, of "n - length as"] by blast
  then obtain subs sts where "getSubForm d t fm = Some subs" "those (map (\<lambda>(j, g). getState d j g) subs) = Some sts"
    by (subst (asm) getState_unfold) (auto split: Option.bind_splits)
  then show ?thesis using getState_unfold[of d t fm] by auto
qed

text \<open>
  C12.  In a radio group of two or more elements, the group's entry in the
  snapshot holds the value of the first checked radio button of that name,
  or the empty string when none is checked, whatever other elements of the
  name wrote in the first loop.
\<close>

theorem getState_radio_group:
  assumes "e \<in> set els" "\<not> e_formIgnore e" "e_valueFunction e = None" "e_tag e = EInput"
    "e_type e = ''radio''" "e_name e \<noteq> ''''"
    and "2 \<le> length (filter (\<lambda>x. e_name x = e_name e) els)"
  shows "map_of (flat_state els) (e_name e) =
           Some (case find (\<lambda>x. e_tag x = EInput \<and> e_type x = ''radio'' \<and> e_checked x)
                          (filter (\<lambda>x. e_name x = e_name e) els) of
                   Some c \<Rightarrow> JV (e_value c) | None \<Rightarrow> JV (FStr ''''))"
proof -
  have "radio_value els (e_name e) = (case find (\<lambda>x. e_tag x = EInput \<and> e_type x = ''radio'' \<and> e_checked x)
                          (filter (\<lambda>x. e_name x = e_name e) els) of
                   Some c \<Rightarrow> JV (e_value c) | None \<Rightarrow> JV (FStr ''''))"
    using assms(7) unfolding radio_value_def by (auto split: list.split)
  with flat_state_radio[OF assms(1-6)] show ?thesis by simp
qed

text \<open>
  C17.  A radio button that is the only element of its name reports its
  value whether or not it is checked: \<open>namedItem\<close> returns the element
  itself rather than a \<open>RadioNodeList\<close>.
\<close>

theorem getState_single_radio_unchecked:
  assumes "filter (\<lambda>x. e_name x = n) els = [e]" "\<not> e_formIgnore e" "e_valueFunction e = None"
    "e_tag e = EInput" "e_type e = ''radio''" "n \<noteq> ''''"
  shows "map_of (flat_state els) n = Some (JV (e_value e))"
proof -
  have "e \<in> set (filter (\<lambda>x. e_name x = n) els)" using assms(1) by simp
  then have e: "e \<in> set els" "e_name e = n" by auto
  show ?thesis using flat_state_radio[of e els] assms e by (simp add: radio_value_def)
qed

text \<open>
  C35.  A sub-form and a form field with the same name share one key of
  the snapshot.  The sub-forms' states are written after the form's own
  entries, so the key of every returned sub-form holds an object (a
  sub-form's state), and a field of that name loses its value.
\<close>

theorem getState_subform_overrides_field:
  assumes "getState d t fm = Some st" and "getSubForm d t fm = Some subs" and "(j, g) \<in> set subs"
  shows "\<exists>s'. map_of st (f_name g) = Some (JObj s')"
proof -
  obtain sts where sts: "those (map (\<lambda>(j, g). getState d j g) subs) = Some sts"
    and st: "st = fold (\<lambda>(n, s) acc. obj_set n (JObj s) acc) (zip (map (f_name \<circ> snd) subs) sts)
                       (flat_state (f_elements fm))"
    using assms(1,2) by (subst (asm) getState_unfold) (auto split: Option.bind_splits)
  obtain i where i: "i < length subs" "subs ! i = (j, g)" using assms(3) by (auto simp: in_set_conv_nth)
  have "length sts = length subs" using those_length[OF sts] by simp
  with i have "(f_name g, sts ! i) \<in> set (zip (map (f_name \<circ> snd) subs) sts)"
    by (auto simp: in_set_conv_nth intro!: exI[of _ i])
  then have "f_name g \<in> fst ` set (zip (map (f_name \<circ> snd) subs) sts)" by force
  then show ?thesis unfolding st by (rule fold_obj_set_pairs_lookup)
qed

subsection \<open>Witnesses\<close>

theorem getSubForm_members_witness:
  "chains_end ex_three 3 [Some 1, Some 2]
   \<and> (\<exists>subs. getSubForm ex_three 0 (ex_top\<lparr>f_descendants := [Some 1, Some 2]\<rparr>) = Some subs \<and>
     set subs = {(g, gm). Some g \<in> set [Some 1, Some 2] \<and> d_forms ex_three g = Some gm \<and> g \<noteq> 0 \<and>
                 (\<exists>as. ancestors (d_parent ex_three) 3 (d_parent ex_three g) = Some as \<and> 0 \<in> set as)})"
proof -
  have h: "chains_end ex_three 3 (f_descendants (ex_top\<lparr>f_descendants := [Some 1, Some 2]\<rparr>))"
    by (simp add: chains_end_def ex_three_def eval_nat_numeral)
  show ?thesis using h getSubForm_members[OF h, of 0] by simp
qed

theorem flat_state_form_ignore_witness:
  "e_formIgnore ((ex_el ''secret'' ''x'')\<lparr>e_formIgnore := True\<rparr>) \<and> e_name (ex_el ''a'' ''1'') \<noteq> ''secret''
   \<and> map_of (flat_state [(ex_el ''secret'' ''x'')\<lparr>e_formIgnore := True\<rparr>, ex_el ''a'' ''1'']) ''secret'' = None"
proof -
  have h: "\<forall>e \<in> set [(ex_el ''secret'' ''x'')\<lparr>e_formIgnore := True\<rparr>, ex_el ''a'' ''1''].
      e_name e = ''secret'' \<longrightarrow> e_tag e = EButton \<or> e_formIgnore e"
    by (simp add: ex_el_def)
  show ?thesis using flat_state_form_ignore[OF h] by (simp add: ex_el_def)
qed

theorem getState_nested_form_witness:
  "(\<forall>g. ancestors (d_parent ex_nested) 1 (d_parent ex_nested g) \<noteq> None) \<and>
   (\<exists>subs sts. getSubForm ex_nested 0 ex_top = Some subs \<and> those (map (\<lambda>(j, g). getState ex_nested j g) subs) = Some sts \<and>
      getState ex_nested 0 ex_top = Some (fold (\<lambda>(n, s) acc. obj_set n (JObj s) acc) (zip (map (f_name \<circ> snd) subs) sts)
                                   (flat_state (f_elements ex_top))))"
proof -
  have h: "\<forall>g. ancestors (d_parent ex_nested) 1 (d_parent ex_nested g) \<noteq> None"
    by (simp add: ex_nested_def)
  show ?thesis using h getState_nested_form[OF h, of 0 ex_top] by blast
qed

theorem getState_radio_group_witness:
  "map_of (flat_state [ex_radio ''color'' ''red'' False, ex_el ''a'' ''1'', ex_radio ''color'' ''green'' True,
      ex_radio ''color'' ''blue'' False]) ''color'' = Some (JV (FStr ''green''))"
  using getState_radio_group[of "ex_radio ''color'' ''red'' False"
      "[ex_radio ''color'' ''red'' False, ex_el ''a'' ''1'', ex_radio ''color'' ''green'' True, ex_radio ''color'' ''blue'' False]"]
  by (simp add: ex_radio_def ex_el_def)

theorem getState_single_radio_unchecked_witness:
  "map_of (flat_state [ex_el ''a'' ''1'', ex_radio ''agree'' ''yes'' False]) ''agree'' = Some (JV (FStr ''yes''))"
  using getState_single_radio_unchecked[of "''agree''" "[ex_el ''a'' ''1'', ex_radio ''agree'' ''yes'' False]"
      "ex_radio ''agree'' ''yes'' False"]
  by (simp add: ex_radio_def ex_el_def)

theorem getState_subform_overrides_field_witness:
  "getState ex_nested 0 (ex_top\<lparr>f_elements := [ex_el ''child'' ''1'']\<rparr>) = Some [(''child'', JObj [(''b'', JV (FStr ''2''))])]
   \<and> (\<exists>s'. map_of [(''child'', JObj [(''b'', JV (FStr ''2''))])] ''child'' = Some (JObj s'))"
proof -
  have h1: "getState ex_nested 0 (ex_top\<lparr>f_elements := [ex_el ''child'' ''1'']\<rparr>) = Some [(''child'', JObj [(''b'', JV (FStr ''2''))])]"
    by (simp add: form_ops form_examples)
  have h2: "getSubForm ex_nested 0 (ex_top\<lparr>f_elements := [ex_el ''child'' ''1'']\<rparr>)
            = Some [(1, \<lparr>f_name = ''child'', f_elements = [ex_el ''b'' ''2''], f_descendants = []\<rparr>)]"
    by (simp add: form_ops form_examples)
  have h3: "(1, \<lparr>f_name = ''child'', f_elements = [ex_el ''b'' ''2''], f_descendants = []\<rparr>)
            \<in> set [(1::nat, \<lparr>f_name = ''child'', f_elements = [ex_el ''b'' ''2''], f_descendants = []\<rparr>)]" by simp
  show ?thesis using h1 getState_subform_overrides_field[OF h1 h2 h3] by simp
qed

end
