(* ===== verification/Validation.thy ===== *)
theory Validation
  imports Prelude
begin

text \<open>
  The per-field validator, class \<open>Validation\<close> of
  \<open>src/component/validation/validation.ts\<close>.  Its state is the record
  \<open>validation\<close>: the component's fields (\<open>validators\<close>, \<open>target\<close>,
  \<open>validationReject\<close>, \<open>timeout\<close>, \<open>state\<close>) together with what the
  JavaScript runtime holds for it: the suspended asynchronous validator runs
  (\<open>runs\<close>), the outcome of every \<open>validate()\<close> call made so far
  (\<open>settled\<close>), and the \<open>validation\<close> events dispatched (\<open>dispatched\<close>).
  One \<open>validate()\<close> call, the firing of its debounce timer and the resumption
  of an awaited validator are separate steps (\<open>vevent\<close>), so that any
  interleaving the event loop allows is a list of steps.
\<close>

subsection \<open>The bound element\<close>

datatype tkind = KInput | KTextArea

text \<open>
  What \<open>Validation\<close> reads from its \<open>input\<close> or \<open>textarea\<close>: the
  native properties, and, for a radio button, the value of the
  \<open>RadioNodeList\<close> its form returns for its name (\<open>None\<close> when there is no
  form or no such list).
\<close>

record target =
  t_kind :: tkind
  t_type :: string
  t_name :: string
  t_value :: string
  t_checked :: bool
  t_valueAsNumber :: "int option"
  t_valueAsDate :: bool
  t_radioListValue :: "string option"
  t_customValidity :: string

subsection \<open>Validators and validation state\<close>

text \<open>
  A validator is a function of the value that returns (its truthiness) or
  throws; it carries its name under \<open>stForm.validatorName\<close>, which may be
  absent (\<open>None\<close>, JavaScript \<open>undefined\<close>).
\<close>

datatype vresult = VReturn bool | VThrow

record validator =
  v_name :: "string option"
  v_fun :: "fvalue \<Rightarrow> vresult"

text \<open>\<open>IValidation\<close>, the published state.\<close>

record vstate =
  validated :: bool
  valid :: bool
  errors :: "string option list"
  "value" :: fvalue

text \<open>
  The body of the debounce callback suspended at \<open>await validator(value)\<close>:
  the call it belongs to, the value read, the validators still to run (the
  first one is the one awaited) and \<open>valid\<close>/\<open>errors\<close> so far.
\<close>

record run =
  r_call :: call_id
  r_value :: fvalue
  r_pending :: "validator list"
  r_valid :: bool
  r_errors :: "string option list"

record validation =
  validators :: "validator list"
  target :: "target option"
  validationReject :: "call_id option"
  timeout :: "(call_id \<times> bool) option"
  state :: "vstate option"
  runs :: "run list"
  settled :: "call_id \<rightharpoonup> outcome"
  next_call :: call_id
  next_obj :: obj_id
  dispatched :: "vstate list"

definition init_validation :: "validator list \<Rightarrow> target option \<Rightarrow> validation" where
  "init_validation vs t =
     \<lparr>validators = vs, target = t, validationReject = None, timeout = None, state = None,
      runs = [], settled = Map.empty, next_call = 0, next_obj = 0, dispatched = []\<rparr>"

subsection \<open>Reading the value\<close>

text \<open>
  \<open>getInputValue\<close>: the \<open>switch\<close> on the input type.  A radio button whose
  form has no \<open>RadioNodeList\<close> under its name falls through to
  \<open>input.value || ''\<close>.  \<open>valueAsDate\<close> returns a fresh \<open>Date\<close> object
  on every read, whose identity is \<open>d\<close>.
\<close>

definition getInputValue :: "target \<Rightarrow> obj_id \<Rightarrow> fvalue" where
  "getInputValue t d =
     (if t_type t = ''number'' then
        (case t_valueAsNumber t of Some n \<Rightarrow> FNum n | None \<Rightarrow> FNaN)
      else if t_type t = ''date'' then (if t_valueAsDate t then FDate d else FNull)
      else if t_type t = ''checkbox'' then FBool (t_checked t)
      else if t_type t = ''radio'' then
        (case t_radioListValue t of Some v \<Rightarrow> FStr v | None \<Rightarrow> FStr (t_value t))
      else FStr (t_value t))"

definition getTextAreaValue :: "target \<Rightarrow> fvalue" where
  "getTextAreaValue t = FStr (t_value t)"

fun getValue :: "target option \<Rightarrow> obj_id \<Rightarrow> fvalue" where
  "getValue None d = FUndef"
| "getValue (Some t) d = (case t_kind t of KInput \<Rightarrow> getInputValue t d | KTextArea \<Rightarrow> getTextAreaValue t)"

subsection \<open>validate()\<close>

text \<open>
  The synchronous part of \<open>validate(force)\<close>: reject the previous call's
  promise (its \<open>catch\<close> turns that into \<open>false\<close>), then, in the promise
  executor, store the new \<open>reject\<close>, clear the pending timer and start a new
  one.  Building the rejection message reads \<open>this.target.name\<close>; with no
  bound target that throws a \<open>TypeError\<close> outside the \<open>try\<close>, so the new
  call is rejected and nothing else changes.
\<close>

definition validate :: "bool \<Rightarrow> validation \<Rightarrow> validation" where
  "validate force v =
     (let c = next_call v; v1 = v\<lparr>next_call := Suc c\<rparr> in
      case validationReject v of
        Some c' \<Rightarrow>
          (case target v of
             None \<Rightarrow> v1\<lparr>settled := settle c (Rejected TypeError) (settled v)\<rparr>
           | Some _ \<Rightarrow> v1\<lparr>settled := settle c' (Resolved False) (settled v),
                          validationReject := Some c, timeout := Some (c, force)\<rparr>)
      | None \<Rightarrow> v1\<lparr>validationReject := Some c, timeout := Some (c, force)\<rparr>)"

text \<open>
  \<open>dispatchValidation(detail)\<close>: a bubbling, composed \<open>validation\<close>
  event whose detail is a copy of the given state; the model records the
  detail in the list of dispatched events.
\<close>

definition dispatchValidation :: "vstate \<Rightarrow> validation \<Rightarrow> validation" where
  "dispatchValidation d v = v\<lparr>dispatched := dispatched v @ [d]\<rparr>"

text \<open>
  The end of a validator run: publish the frozen state, dispatch the
  \<open>validation\<close> event, set the custom validity and resolve the call.
\<close>

definition finish_run :: "run \<Rightarrow> validation \<Rightarrow> validation" where
  "finish_run r v =
     (let s = \<lparr>validated = True, valid = r_valid r, errors = r_errors r, value = r_value r\<rparr> in
      (dispatchValidation s (v\<lparr>state := Some s\<rparr>))\<lparr>
        target := map_option (\<lambda>t. t\<lparr>t_customValidity := (if r_valid r then '''' else '' '')\<rparr>) (target v),
        settled := settle (r_call r) (Resolved (r_valid r)) (settled v)\<rparr>)"

text \<open>
  The loop \<open>for (const validator of this.validators)\<close> at its head: with a
  validator left it calls it and suspends at the \<open>await\<close>; otherwise the
  run finishes.
\<close>

definition continue_run :: "run \<Rightarrow> validation \<Rightarrow> validation" where
  "continue_run r v = (if r_pending r = [] then finish_run r v else v\<lparr>runs := runs v @ [r]\<rparr>)"

definition set_validity :: "string \<Rightarrow> target \<Rightarrow> target" where
  "set_validity m t = t\<lparr>t_customValidity := m\<rparr>"

text \<open>
  The \<open>setTimeout\<close> callback of call \<open>c\<close>.  The skip rule compares the
  published value with \<open>!==\<close>.  The radio branch leaves the state alone and
  resolves \<open>true\<close>.  With no bound target \<open>setCustomValidity\<close> throws inside
  the callback: the exception is not caught and the call is never resolved.
\<close>

definition fire_timeout :: "validation \<Rightarrow> validation" where
  "fire_timeout v =
     (case timeout v of
        None \<Rightarrow> v
      | Some (c, force) \<Rightarrow>
          (let x = getValue (target v) (next_obj v);
               v1 = v\<lparr>timeout := None, next_obj := Suc (next_obj v)\<rparr>;
               changed = (case state v of None \<Rightarrow> True | Some s \<Rightarrow> \<not> js_strict_eq (value s) x)
           in if force \<or> changed then
                (case target v of
                   None \<Rightarrow> v1
                 | Some t \<Rightarrow>
                     (if t_type t = ''radio'' then
                        v1\<lparr>target := Some (set_validity '''' (set_validity '' '' t)),
                           settled := settle c (Resolved True) (settled v)\<rparr>
                      else continue_run
                             \<lparr>r_call = c, r_value = x, r_pending = validators v, r_valid = True, r_errors = []\<rparr>
                             (v1\<lparr>target := Some (set_validity '' '' t)\<rparr>)))
              else
                (case state v of
                   None \<Rightarrow> v1
                 | Some s \<Rightarrow> v1\<lparr>settled := settle c (Resolved (valid s)) (settled v)\<rparr>)))"

text \<open>
  The body of the validator loop after \<open>await validator(value)\<close> returned
  \<open>b\<close>: a falsy result clears \<open>valid\<close> and appends the validator's name
  to \<open>errors\<close>.
\<close>

definition record_result :: "validator \<Rightarrow> bool \<Rightarrow> run \<Rightarrow> run" where
  "record_result f b r =
     r\<lparr>r_valid := (r_valid r \<and> b), r_errors := (if b then r_errors r else r_errors r @ [v_name f])\<rparr>"

text \<open>
  The awaited validator of the run of call \<open>c\<close> completes.  A throw
  ends the callback with an uncaught exception, and the call stays unresolved.
\<close>

definition resume_run :: "call_id \<Rightarrow> validation \<Rightarrow> validation" where
  "resume_run c v =
     (case find (\<lambda>r. r_call r = c) (runs v) of
        None \<Rightarrow> v
      | Some r \<Rightarrow>
          (let v1 = v\<lparr>runs := filter (\<lambda>r. r_call r \<noteq> c) (runs v)\<rparr> in
           case r_pending r of
             [] \<Rightarrow> v1
           | f # fs \<Rightarrow>
               (case v_fun f (r_value r) of
                  VThrow \<Rightarrow> v1
                | VReturn b \<Rightarrow> continue_run (record_result f b (r\<lparr>r_pending := fs\<rparr>)) v1)))"

subsection \<open>Steps and runs\<close>

text \<open>
  \<open>Edit\<close> is the user typing into the bound element (a new \<open>value\<close>); it
  changes nothing of the component itself.
\<close>

datatype vevent = Validate bool | Fire | Resume call_id | Edit string

definition edit_target :: "string \<Rightarrow> validation \<Rightarrow> validation" where
  "edit_target s v = v\<lparr>target := map_option (\<lambda>t. t\<lparr>t_value := s\<rparr>) (target v)\<rparr>"

fun validation_step :: "validation \<Rightarrow> vevent \<Rightarrow> validation" where
  "validation_step v (Validate force) = validate force v"
| "validation_step v Fire = fire_timeout v"
| "validation_step v (Resume c) = resume_run c v"
| "validation_step v (Edit s) = edit_target s v"

fun validation_run :: "validation \<Rightarrow> vevent list \<Rightarrow> validation" where
  "validation_run v [] = v"
| "validation_run v (e # es) = validation_run (validation_step v e) es"

subsection \<open>Reference semantics, invariant and example data\<close>

text \<open>
  The validator loop of the debounce callback (lines 120--126) run without
  suspension: \<open>None\<close> when a validator throws, otherwise the names of the
  validators that returned a falsy value, in list order.
\<close>

fun run_validators :: "validator list \<Rightarrow> fvalue \<Rightarrow> string option list option" where
  "run_validators [] x = Some []"
| "run_validators (f # fs) x =
     (case v_fun f x of
        VThrow \<Rightarrow> None
      | VReturn b \<Rightarrow> map_option (\<lambda>es. if b then es else v_name f # es) (run_validators fs x))"

abbreviation read_value :: "validation \<Rightarrow> fvalue" where
  "read_value v \<equiv> getValue (target v) (next_obj v)"

text \<open>The negation of the skip rule: the value read now differs from the published one.\<close>

definition value_changed :: "validation \<Rightarrow> bool" where
  "value_changed v = (case state v of None \<Rightarrow> True | Some s \<Rightarrow> \<not> js_strict_eq (value s) (read_value v))"

text \<open>
  The invariant of a field: published states and suspended runs have
  \<open>valid\<close> exactly when \<open>errors\<close> is empty; a pending timer belongs to the
  latest call, which is unsettled and has no run yet; every call but the
  latest one is settled; Date objects read so far have identities below the
  allocation counter.
\<close>

definition validation_inv :: "validation \<Rightarrow> bool" where
  "validation_inv v \<longleftrightarrow>
     (\<forall>s. state v = Some s \<longrightarrow> validated s \<and> (valid s \<longleftrightarrow> errors s = [])
        \<and> (\<forall>d. value s = FDate d \<longrightarrow> d < next_obj v)) \<and>
     (\<forall>r \<in> set (runs v). (r_valid r \<longleftrightarrow> r_errors r = []) \<and> r_call r < next_call v \<and> r_pending r \<noteq> []
        \<and> (\<forall>d. r_value r = FDate d \<longrightarrow> d < next_obj v)) \<and>
     (\<forall>c f. timeout v = Some (c, f) \<longrightarrow>
        validationReject v = Some c \<and> settled v c = None \<and> (\<forall>r \<in> set (runs v). r_call r \<noteq> c)) \<and>
     (\<forall>c. validationReject v = Some c \<longrightarrow> c < next_call v) \<and>
     (\<forall>c < next_call v. validationReject v \<noteq> Some c \<longrightarrow> settled v c \<noteq> None) \<and>
     dom (settled v) \<subseteq> {..< next_call v}"

text \<open>What stays true of a field whose \<open>onAfterRender\<close> found no input or textarea.\<close>

definition unbound_inv :: "validation \<Rightarrow> bool" where
  "unbound_inv v \<longleftrightarrow> target v = None \<and> state v = None \<and> runs v = [] \<and> dispatched v = []
     \<and> ran (settled v) \<subseteq> {Rejected TypeError}"

text \<open>A text input and a presence validator, for the witnesses.\<close>

definition ex_target :: "string \<Rightarrow> target" where
  "ex_target s = \<lparr>t_kind = KInput, t_type = ''text'', t_name = ''name'', t_value = s, t_checked = False,
     t_valueAsNumber = None, t_valueAsDate = False, t_radioListValue = None, t_customValidity = ''''\<rparr>"

definition ex_required :: validator where
  "ex_required = \<lparr>v_name = Some ''required'', v_fun = (\<lambda>x. VReturn (x \<noteq> FStr ''''))\<rparr>"

definition ex_throwing :: validator where
  "ex_throwing = \<lparr>v_name = Some ''remote'', v_fun = (\<lambda>x. VThrow)\<rparr>"

definition ex_field :: validation where
  "ex_field = init_validation [ex_required] (Some (ex_target ''a''))"

lemmas validation_ops = validate_def fire_timeout_def resume_run_def record_result_def continue_run_def
  finish_run_def dispatchValidation_def edit_target_def set_validity_def getInputValue_def getTextAreaValue_def

lemmas validation_examples = ex_field_def init_validation_def ex_target_def ex_required_def ex_throwing_def

subsection \<open>The invariant is kept by every step\<close>

lemma record_result_fields [simp]:
  "r_call (record_result f b r) = r_call r" "r_value (record_result f b r) = r_value r"
  "r_pending (record_result f b r) = r_pending r"
  by (simp_all add: record_result_def)

lemma record_result_valid:
  "(r_valid r \<longleftrightarrow> r_errors r = []) \<Longrightarrow> (r_valid (record_result f b r) \<longleftrightarrow> r_errors (record_result f b r) = [])"
  by (auto simp: record_result_def)

lemma init_validation_inv: "validation_inv (init_validation vs t)"
  by (simp add: validation_inv_def init_validation_def)

lemma edit_target_inv: "validation_inv v \<Longrightarrow> validation_inv (edit_target s v)"
  by (simp add: validation_inv_def edit_target_def)

lemma validate_inv: "validation_inv v \<Longrightarrow> validation_inv (validate force v)"
  unfolding validation_inv_def validate_def Let_def
  by (auto simp: settle_def less_Suc_eq split: option.splits) 

lemma finish_run_inv:
  assumes "validation_inv v" and "r_valid r \<longleftrightarrow> r_errors r = []" and "r_call r < next_call v"
    and "\<forall>d. r_value r = FDate d \<longrightarrow> d < next_obj v"
    and "\<forall>c f. timeout v = Some (c, f) \<longrightarrow> r_call r \<noteq> c"
  shows "validation_inv (finish_run r v)"
  using assms unfolding validation_inv_def finish_run_def dispatchValidation_def Let_def
  by (auto simp: settle_def split: option.splits)

lemma continue_run_inv:
  assumes "validation_inv v" and "r_valid r \<longleftrightarrow> r_errors r = []" and "r_call r < next_call v"
    and "\<forall>d. r_value r = FDate d \<longrightarrow> d < next_obj v"
    and "\<forall>c f. timeout v = Some (c, f) \<longrightarrow> r_call r \<noteq> c"
  shows "validation_inv (continue_run r v)"
proof (cases "r_pending r = []")
  case True
  with assms show ?thesis by (simp add: continue_run_def finish_run_inv)
next
  case False
  with assms show ?thesis
    unfolding continue_run_def validation_inv_def by auto
qed

lemma fire_timeout_inv:
  assumes inv: "validation_inv v"
  shows "validation_inv (fire_timeout v)"
proof (cases "timeout v")
  case None
  then show ?thesis using inv by (simp add: fire_timeout_def)
next
  case (Some p)
  obtain c f where p: "p = (c, f)" by (cases p)
  let ?x = "getValue (target v) (next_obj v)"
  let ?v1 = "v\<lparr>timeout := None, next_obj := Suc (next_obj v)\<rparr>"
  have hold: "validationReject v = Some c" "settled v c = None" "c < next_call v"
    using inv Some p unfolding validation_inv_def by auto
  have inv1: "validation_inv ?v1"
    using inv unfolding validation_inv_def by auto
  have x: "\<forall>d. ?x = FDate d \<longrightarrow> d < Suc (next_obj v)"
    by (cases "target v") (auto simp: getInputValue_def getTextAreaValue_def split: tkind.splits option.splits)
  have run_ok: "validation_inv (continue_run \<lparr>r_call = c, r_value = ?x, r_pending = validators v, r_valid = True, r_errors = []\<rparr>
       (?v1\<lparr>target := Some (set_validity '' '' t)\<rparr>))" for t
    by (rule continue_run_inv) (use inv1 hold x in \<open>auto simp: validation_inv_def\<close>)
  have settle_ok: "validation_inv (w\<lparr>settled := settle c r (settled v)\<rparr>)"
    if "validation_inv w" "settled w = settled v" "timeout w = None" "next_call w = next_call v" for w r
    using that hold unfolding validation_inv_def by (auto simp: settle_def)
  have tgt: "validation_inv (w\<lparr>target := t'\<rparr>) = validation_inv w" for w t'
    by (simp add: validation_inv_def)
  show ?thesis
  proof (cases "target v")
    case None
    then show ?thesis
      using Some p inv1 settle_ok[of ?v1]
      by (simp add: fire_timeout_def Let_def split: option.split)
  next
    case (Some t)
    show ?thesis
      using \<open>timeout v = Some p\<close> p Some inv1 run_ok settle_ok[of ?v1] settle_ok[of "?v1\<lparr>target := t'\<rparr>" for t'] tgt
      by (simp add: fire_timeout_def Let_def split: option.split)
  qed
qed

lemma resume_run_inv:
  assumes inv: "validation_inv v"
  shows "validation_inv (resume_run c v)"
proof (cases "find (\<lambda>r. r_call r = c) (runs v)")
  case None
  then show ?thesis using inv by (simp add: resume_run_def)
next
  case (Some r)
  then have r: "r \<in> set (runs v)" "r_call r = c" by (auto dest: find_SomeD)
  let ?v1 = "v\<lparr>runs := filter (\<lambda>r. r_call r \<noteq> c) (runs v)\<rparr>"
  have inv1: "validation_inv ?v1"
    using inv unfolding validation_inv_def by auto
  have rok: "(r_valid r \<longleftrightarrow> r_errors r = []) \<and> r_call r < next_call v
      \<and> (\<forall>d. r_value r = FDate d \<longrightarrow> d < next_obj v)
      \<and> (\<forall>c' f. timeout v = Some (c', f) \<longrightarrow> r_call r \<noteq> c')"
    using inv r unfolding validation_inv_def by fastforce
  have step: "validation_inv (continue_run (record_result f b (r\<lparr>r_pending := fs\<rparr>)) ?v1)" for f b fs
  proof (rule continue_run_inv)
    show "r_valid (record_result f b (r\<lparr>r_pending := fs\<rparr>)) \<longleftrightarrow> r_errors (record_result f b (r\<lparr>r_pending := fs\<rparr>)) = []"
      by (rule record_result_valid) (use rok in simp)
  qed (use inv1 rok in auto)
  show ?thesis
    using Some inv1 step
    by (simp add: resume_run_def Let_def split: list.split vresult.split)
qed

lemma validation_step_inv: "validation_inv v \<Longrightarrow> validation_inv (validation_step v e)"
  by (cases e) (simp_all add: validate_inv fire_timeout_inv resume_run_inv edit_target_inv)

lemma validation_run_inv_from: "validation_inv v \<Longrightarrow> validation_inv (validation_run v es)"
  by (induction es arbitrary: v) (simp_all add: validation_step_inv)

subsection \<open>The stepwise run refines the reference loop\<close>

lemma validation_run_append [simp]:
  "validation_run v (es @ es') = validation_run (validation_run v es) es'"
  by (induction es arbitrary: v) simp_all

lemma resume_absent:
  "\<forall>r \<in> set (runs v). r_call r \<noteq> c \<Longrightarrow> validation_run v (replicate n (Resume c)) = v"
proof (induction n)
  case 0
  then show ?case by simp
next
  case (Suc n)
  then have "find (\<lambda>r. r_call r = c) (runs v) = None" by (simp add: find_None_iff)
  with Suc show ?case by (simp add: resume_run_def)
qed

lemma resume_steps:
  assumes "\<forall>r' \<in> set (runs v). r_call r' \<noteq> r_call r"
    and "r_pending r \<noteq> []"
    and "run_validators (r_pending r) (r_value r) = Some es"
  shows "validation_run (v\<lparr>runs := runs v @ [r]\<rparr>) (replicate (length (r_pending r)) (Resume (r_call r))) =
         finish_run \<lparr>r_call = r_call r, r_value = r_value r, r_pending = [],
                     r_valid = (r_valid r \<and> es = []), r_errors = r_errors r @ es\<rparr> v"
  using assms
proof (induction "r_pending r" arbitrary: r es)
  case Nil
  then show ?case by simp
next
  case (Cons f fs)
  let ?c = "r_call r"
  have find: "find (\<lambda>r'. r_call r' = ?c) (runs v @ [r]) = Some r"
    using Cons.prems(1) by (simp add: find_append_skip)
  have filt: "filter (\<lambda>r'. r_call r' \<noteq> ?c) (runs v @ [r]) = runs v"
    using Cons.prems(1) by (simp add: filter_id_conv)
  obtain b where b: "v_fun f (r_value r) = VReturn b"
    using Cons.prems(3) \<open>f # fs = r_pending r\<close>[symmetric]
    by (cases "v_fun f (r_value r)") auto
  obtain es' where es': "run_validators fs (r_value r) = Some es'"
    and es: "es = (if b then es' else v_name f # es')"
    using Cons.prems(3) \<open>f # fs = r_pending r\<close>[symmetric] b by auto
  let ?r' = "record_result f b (r\<lparr>r_pending := fs\<rparr>)"
  have one: "resume_run ?c (v\<lparr>runs := runs v @ [r]\<rparr>) = continue_run ?r' v"
    using find filt b \<open>f # fs = r_pending r\<close>[symmetric] by (simp add: resume_run_def)
  show ?case
  proof (cases "fs = []")
    case True
    with one es es' \<open>f # fs = r_pending r\<close>[symmetric] show ?thesis
      by (simp add: continue_run_def finish_run_def dispatchValidation_def record_result_def)
  next
    case False
    have "validation_run (v\<lparr>runs := runs v @ [?r']\<rparr>) (replicate (length fs) (Resume ?c)) =
          finish_run \<lparr>r_call = ?c, r_value = r_value r, r_pending = [],
                     r_valid = (r_valid r \<and> b \<and> es' = []), r_errors = (if b then r_errors r else r_errors r @ [v_name f]) @ es'\<rparr> v"
      using Cons.hyps(1)[of ?r' es'] Cons.prems(1) False es' by (simp add: record_result_def)
    with one False es \<open>f # fs = r_pending r\<close>[symmetric] show ?thesis
      by (simp add: continue_run_def finish_run_def dispatchValidation_def)
  qed
qed

lemma validate_bound:
  assumes "validation_inv v" and "target v = Some t"
  shows "timeout (validate force v) = Some (next_call v, force)"
    and "validationReject (validate force v) = Some (next_call v)"
    and "settled (validate force v) (next_call v) = None"
    and "runs (validate force v) = runs v" and "state (validate force v) = state v"
    and "dispatched (validate force v) = dispatched v" and "target (validate force v) = target v"
    and "next_obj (validate force v) = next_obj v" and "validators (validate force v) = validators v"
    and "next_call (validate force v) = Suc (next_call v)"
  using assms by (auto simp: validate_def validation_inv_def settle_def Let_def split: option.splits)

lemma resume_steps_throw:
  assumes "\<forall>r' \<in> set (runs v). r_call r' \<noteq> r_call r"
    and "run_validators (r_pending r) (r_value r) = None"
  shows "validation_run (v\<lparr>runs := runs v @ [r]\<rparr>) (replicate (length (r_pending r)) (Resume (r_call r))) = v"
  using assms
proof (induction "r_pending r" arbitrary: r)
  case Nil
  then show ?case by simp
next
  case (Cons f fs)
  let ?c = "r_call r"
  have find: "find (\<lambda>r'. r_call r' = ?c) (runs v @ [r]) = Some r"
    using Cons.prems(1) by (simp add: find_append_skip)
  have filt: "filter (\<lambda>r'. r_call r' \<noteq> ?c) (runs v @ [r]) = runs v"
    using Cons.prems(1) by (simp add: filter_id_conv)
  show ?case
  proof (cases "v_fun f (r_value r)")
    case VThrow
    with find filt \<open>f # fs = r_pending r\<close>[symmetric] Cons.prems(1) show ?thesis
      by (simp add: resume_run_def resume_absent)
  next
    case (VReturn b)
    let ?r' = "record_result f b (r\<lparr>r_pending := fs\<rparr>)"
    have fs: "fs \<noteq> []" and none: "run_validators fs (r_value r) = None"
      using Cons.prems(2) VReturn \<open>f # fs = r_pending r\<close>[symmetric] by (auto split: if_splits)
    have one: "resume_run ?c (v\<lparr>runs := runs v @ [r]\<rparr>) = v\<lparr>runs := runs v @ [?r']\<rparr>"
      using find filt VReturn fs \<open>f # fs = r_pending r\<close>[symmetric] by (simp add: resume_run_def continue_run_def)
    have "validation_run (v\<lparr>runs := runs v @ [?r']\<rparr>) (replicate (length fs) (Resume ?c)) = v"
      using Cons.hyps(1)[of ?r'] Cons.prems(1) none by simp
    with one \<open>f # fs = r_pending r\<close>[symmetric] show ?thesis by simp
  qed
qed

lemma unbound_inv_step: "unbound_inv v \<Longrightarrow> unbound_inv (validation_step v e)"
proof (cases e)
  case (Validate f)
  assume "unbound_inv v"
  then show ?thesis using Validate
    by (auto simp: unbound_inv_def validate_def Let_def settle_def ran_def split: option.splits)
next
  case Fire
  assume "unbound_inv v"
  then show ?thesis using Fire
    by (auto simp: unbound_inv_def fire_timeout_def Let_def split: option.splits)
next
  case (Resume c)
  assume "unbound_inv v"
  then show ?thesis using Resume by (simp add: unbound_inv_def resume_run_def)
next
  case (Edit s)
  assume "unbound_inv v"
  then show ?thesis using Edit by (simp add: unbound_inv_def edit_target_def)
qed

lemma unbound_run_inv: "unbound_inv v \<Longrightarrow> unbound_inv (validation_run v es)"
  by (induction es arbitrary: v) (simp_all add: unbound_inv_step)

lemma init_unbound_inv: "unbound_inv (init_validation vs None)"
  by (simp add: unbound_inv_def init_validation_def)

lemma reachable_validation_inv: "validation_inv (validation_run (init_validation vs t) es)"
  by (rule validation_run_inv_from [OF init_validation_inv])

lemma changed_with_target:
  assumes "target v = Some t" and "force \<or> value_changed v"
  shows "force \<or> (case state v of None \<Rightarrow> True
                   | Some s \<Rightarrow> \<not> js_strict_eq (value s) (getValue (Some t) (next_obj v)))"
  using assms by (cases "state v") (simp_all add: value_changed_def del: getValue.simps)

subsection \<open>Properties of validate()\<close>

text \<open>
  C1.  An uninterrupted \<open>validate(force)\<close> on a bound, non-radio field whose
  value changed (or that is forced): once the timer fires and each awaited
  validator completes, the published state is the frozen
  \<open>{validated: true, valid, errors, value}\<close> with \<open>errors\<close> the names of
  the failing validators in list order and \<open>valid\<close> iff there are none,
  exactly one \<open>validation\<close> event carries it, and the call resolves with
  \<open>valid\<close>.  This is the stepwise, suspending execution refining the
  reference loop \<open>run_validators\<close>.
\<close>

theorem validate_complete:
  assumes inv: "validation_inv v" and tgt: "target v = Some t" and nr: "t_type t \<noteq> ''radio''"
    and go: "force \<or> value_changed v"
    and rv: "run_validators (validators v) (read_value v) = Some es"
  shows "let w = validation_run v ([Validate force, Fire] @ replicate (length (validators v)) (Resume (next_call v)));
             s = \<lparr>validated = True, valid = (es = []), errors = es, value = read_value v\<rparr>
         in state w = Some s \<and> dispatched w = dispatched v @ [s]
            \<and> settled w (next_call v) = Some (Resolved (es = [])) \<and> runs w = runs v"
proof -
  let ?c = "next_call v"
  let ?v2 = "validate force v"
  let ?x = "read_value v"
  let ?v3 = "?v2\<lparr>timeout := None, next_obj := Suc (next_obj v), target := Some (set_validity '' '' t)\<rparr>"
  let ?r = "\<lparr>r_call = ?c, r_value = ?x, r_pending = validators v, r_valid = True, r_errors = []\<rparr>"
  note b = validate_bound[OF inv tgt, of force]
  have fire: "fire_timeout ?v2 = continue_run ?r ?v3"
    using b tgt nr changed_with_target[OF tgt go]
    by (simp add: fire_timeout_def Let_def del: getValue.simps)
  have fresh: "\<forall>r' \<in> set (runs ?v3). r_call r' \<noteq> ?c"
    using inv b unfolding validation_inv_def by auto
  have w: "validation_run v ([Validate force, Fire] @ replicate (length (validators v)) (Resume ?c)) =
           finish_run \<lparr>r_call = ?c, r_value = ?x, r_pending = [], r_valid = (es = []), r_errors = es\<rparr> ?v3"
  proof (cases "validators v = []")
    case True
    with rv fire show ?thesis by (simp add: continue_run_def finish_run_def dispatchValidation_def)
  next
    case False
    then have "continue_run ?r ?v3 = ?v3\<lparr>runs := runs ?v3 @ [?r]\<rparr>"
      by (simp add: continue_run_def)
    with False fire resume_steps[of ?v3 ?r es] fresh rv show ?thesis by simp
  qed
  show ?thesis
    unfolding w using b by (simp add: finish_run_def dispatchValidation_def Let_def)
qed

text \<open>
  C2.  In every state a field reaches from its creation, whatever the
  interleaving of calls, timers, validator completions and edits, a
  published \<open>IValidation\<close> has \<open>validated = true\<close> and is valid exactly when
  its error list is empty.
\<close>

theorem published_state_consistent:
  assumes "state (validation_run (init_validation vs t) es) = Some s"
  shows "validated s \<and> (valid s \<longleftrightarrow> errors s = [])"
  using reachable_validation_inv[of vs t es] assms unfolding validation_inv_def by auto

text \<open>
  C3.  Last call wins: in every reachable state, every \<open>validate()\<close> call
  other than the latest one (the one whose \<open>reject\<close> is stored in
  \<open>validationReject\<close>) has settled, so at most one call per field is
  pending.
\<close>

theorem last_call_wins:
  assumes "c < next_call (validation_run (init_validation vs t) es)"
    and "validationReject (validation_run (init_validation vs t) es) \<noteq> Some c"
  shows "settled (validation_run (init_validation vs t) es) c \<noteq> None"
  using reachable_validation_inv[of vs t es] assms unfolding validation_inv_def by auto

text \<open>
  C4.  Skip rule: an unforced call whose freshly read value is strictly equal
  to the published value resolves with the published \<open>valid\<close>, runs no
  validator, and publishes no state and no event.
\<close>

theorem validate_skip:
  assumes inv: "validation_inv v" and tgt: "target v \<noteq> None"
    and st: "state v = Some s" and same: "js_strict_eq (value s) (read_value v)"
  shows "let w = validation_run v [Validate False, Fire]
         in settled w (next_call v) = Some (Resolved (valid s)) \<and> state w = state v
            \<and> dispatched w = dispatched v \<and> runs w = runs v"
proof -
  obtain t where t: "target v = Some t" using tgt by auto
  note b = validate_bound[OF inv t, of False]
  show ?thesis using b st same by (simp add: fire_timeout_def Let_def)
qed

text \<open>
  C5.  A call made while the previous call's debounce timer is pending
  cancels it: the previous call resolves with \<open>false\<close> (its rejection is
  caught) and the only pending timer is the new call's.
\<close>

theorem validate_supersedes:
  assumes inv: "validation_inv v" and tgt: "target v = Some t" and pend: "timeout v = Some (c, f)"
  shows "settled (validate force v) c = Some (Resolved False)
         \<and> timeout (validate force v) = Some (next_call v, force)"
proof -
  have "validationReject v = Some c" "settled v c = None"
    using inv pend unfolding validation_inv_def by auto
  with tgt show ?thesis by (simp add: validate_def Let_def)
qed

text \<open>
  C6.  Cancellation does not stop a run already past its timer.  Take a
  field whose latest call is unsettled and suspended at a validator.  A new
  \<open>validate()\<close> resolves that call \<open>false\<close>, yet when its validators
  complete it still publishes its (stale) value and dispatches its event,
  while the newer call is pending.
\<close>

theorem superseded_run_overwrites_state:
  assumes inv: "validation_inv v" and tgt: "target v = Some t"
    and runs: "runs v = rs @ [r]" and uniq: "\<forall>r' \<in> set rs. r_call r' \<noteq> r_call r"
    and latest: "validationReject v = Some (r_call r)" and open_call: "settled v (r_call r) = None"
    and ne: "r_pending r \<noteq> []" and ok: "run_validators (r_pending r) (r_value r) = Some es"
  shows "let w = validation_run (validate force v) (replicate (length (r_pending r)) (Resume (r_call r)));
             s = \<lparr>validated = True, valid = (r_valid r \<and> es = []), errors = r_errors r @ es, value = r_value r\<rparr>
         in settled w (r_call r) = Some (Resolved False)
            \<and> validationReject w = Some (next_call v) \<and> settled w (next_call v) = None
            \<and> state w = Some s \<and> dispatched w = dispatched v @ [s]"
proof -
  let ?v0 = "v\<lparr>runs := rs\<rparr>"
  have inv0: "validation_inv ?v0" and tgt0: "target ?v0 = Some t"
    using inv runs tgt by (auto simp: validation_inv_def)
  note b = validate_bound[OF inv0 tgt0, of force]
  have split: "validate force v = (validate force ?v0)\<lparr>runs := runs (validate force ?v0) @ [r]\<rparr>"
    using runs tgt latest by (cases v) (simp add: validate_def Let_def)
  have lt: "r_call r < next_call v" using inv latest by (simp add: validation_inv_def)
  have sup: "settled (validate force ?v0) (r_call r) = Some (Resolved False)"
    using tgt latest open_call by (simp add: validate_def Let_def)
  have w: "validation_run (validate force v) (replicate (length (r_pending r)) (Resume (r_call r))) =
           finish_run \<lparr>r_call = r_call r, r_value = r_value r, r_pending = [],
                       r_valid = (r_valid r \<and> es = []), r_errors = r_errors r @ es\<rparr> (validate force ?v0)"
    unfolding split using uniq b(4) ne ok by (intro resume_steps) simp_all
  show ?thesis
    unfolding w using b sup lt
    by (simp add: finish_run_def dispatchValidation_def Let_def)
qed

text \<open>
  C7.  A validator that throws ends the debounce callback with an uncaught
  exception: the call is never resolved by its own run, no state or event is
  published, and only the next \<open>validate()\<close> settles it, with \<open>false\<close>.
\<close>

theorem validator_throw_hangs:
  assumes inv: "validation_inv v" and tgt: "target v = Some t" and nr: "t_type t \<noteq> ''radio''"
    and go: "force \<or> value_changed v"
    and rv: "run_validators (validators v) (read_value v) = None"
  shows "let w = validation_run v ([Validate force, Fire] @ replicate (length (validators v)) (Resume (next_call v)))
         in settled w (next_call v) = None \<and> state w = state v \<and> dispatched w = dispatched v
            \<and> settled (validate force' w) (next_call v) = Some (Resolved False)"
proof -
  let ?c = "next_call v"
  let ?v2 = "validate force v"
  let ?v3 = "?v2\<lparr>timeout := None, next_obj := Suc (next_obj v), target := Some (set_validity '' '' t)\<rparr>"
  let ?r = "\<lparr>r_call = ?c, r_value = read_value v, r_pending = validators v, r_valid = True, r_errors = []\<rparr>"
  note b = validate_bound[OF inv tgt, of force]
  have ne: "validators v \<noteq> []" using rv by auto
  have fire: "fire_timeout ?v2 = ?v3\<lparr>runs := runs ?v3 @ [?r]\<rparr>"
    using b tgt nr changed_with_target[OF tgt go] ne
    by (simp add: fire_timeout_def continue_run_def Let_def del: getValue.simps)
  have fresh: "\<forall>r' \<in> set (runs ?v3). r_call r' \<noteq> ?c"
    using inv b unfolding validation_inv_def by auto
  have w: "validation_run v ([Validate force, Fire] @ replicate (length (validators v)) (Resume ?c)) = ?v3"
    using fire resume_steps_throw[of ?v3 ?r] fresh rv by simp
  have "settled (validate force' ?v3) ?c = Some (Resolved False)"
    using b by (simp add: validate_def settle_def)
  then show ?thesis unfolding w using b by (simp add: Let_def)
qed

text \<open>
  C8.  The skip rule never applies to a date input holding a date, nor to a
  number input holding NaN: \<open>valueAsDate\<close> returns a fresh object and NaN is
  not equal to itself, so the value always counts as changed and every event
  re-runs the validators.
\<close>

theorem fresh_object_always_changed:
  assumes inv: "validation_inv v" and tgt: "target v = Some t" and inp: "t_kind t = KInput"
    and obj: "(t_type t = ''date'' \<and> t_valueAsDate t) \<or> (t_type t = ''number'' \<and> t_valueAsNumber t = None)"
  shows "value_changed v"
proof (cases "state v")
  case None
  then show ?thesis by (simp add: value_changed_def)
next
  case (Some s)
  then have "\<forall>d. value s = FDate d \<longrightarrow> d < next_obj v"
    using inv unfolding validation_inv_def by auto
  with Some tgt inp obj show ?thesis
    by (cases "value s") (auto simp: value_changed_def getInputValue_def)
qed

text \<open>
  C9.  Radio buttons are not validated: a call on a radio target resolves
  \<open>true\<close> without running a validator, publishing a state or dispatching an
  event.
\<close>

theorem validate_radio:
  assumes inv: "validation_inv v" and tgt: "target v = Some t" and rd: "t_type t = ''radio''"
    and go: "force \<or> value_changed v"
  shows "let w = validation_run v [Validate force, Fire]
         in settled w (next_call v) = Some (Resolved True) \<and> state w = state v
            \<and> dispatched w = dispatched v \<and> runs w = runs v"
proof -
  note b = validate_bound[OF inv tgt, of force]
  show ?thesis using b tgt rd changed_with_target[OF tgt go]
    by (simp add: fire_timeout_def Let_def del: getValue.simps)
qed

text \<open>
  C10.  A field bound to no element (\<open>onAfterRender\<close> only logs the missing
  child) never resolves a call and never publishes a state: each call either
  stays pending forever or, when an earlier call exists, is rejected with a
  \<open>TypeError\<close> from reading \<open>this.target.name\<close>.
\<close>

theorem unbound_never_resolves:
  "settled (validation_run (init_validation vs None) es) c \<in> {None, Some (Rejected TypeError)}
   \<and> state (validation_run (init_validation vs None) es) = None"
proof -
  have "unbound_inv (validation_run (init_validation vs None) es)"
    by (rule unbound_run_inv [OF init_unbound_inv])
  then show ?thesis
    by (cases "settled (validation_run (init_validation vs None) es) c")
       (auto simp: unbound_inv_def ran_def)
qed

subsection \<open>Witnesses\<close>

theorem validate_complete_witness:
  "validation_inv ex_field \<and> target ex_field = Some (ex_target ''a'') \<and> t_type (ex_target ''a'') \<noteq> ''radio''
   \<and> (False \<or> value_changed ex_field) \<and> run_validators (validators ex_field) (read_value ex_field) = Some []
   \<and> (let w = validation_run ex_field ([Validate False, Fire] @ replicate (length (validators ex_field)) (Resume (next_call ex_field)));
          s = \<lparr>validated = True, valid = ([] = ([] :: string option list)), errors = [], value = read_value ex_field\<rparr>
      in state w = Some s \<and> dispatched w = dispatched ex_field @ [s]
         \<and> settled w (next_call ex_field) = Some (Resolved ([] = ([] :: string option list))) \<and> runs w = runs ex_field)"
proof -
  have h1: "validation_inv ex_field" unfolding ex_field_def by (rule init_validation_inv)
  have h2: "target ex_field = Some (ex_target ''a'')" by (simp add: validation_examples)
  have h3: "t_type (ex_target ''a'') \<noteq> ''radio''" by (simp add: ex_target_def)
  have h4: "False \<or> value_changed ex_field" by (simp add: value_changed_def validation_examples)
  have h5: "run_validators (validators ex_field) (read_value ex_field) = Some []"
    by (simp add: validation_examples getInputValue_def)
  show ?thesis using h1 h2 h3 h4 h5 validate_complete[OF h1 h2 h3 h4 h5] by blast
qed

theorem published_state_consistent_witness:
  "state (validation_run (init_validation [ex_required] (Some (ex_target ''a''))) [Validate False, Fire, Resume 0])
     = Some \<lparr>validated = True, valid = True, errors = [], value = FStr ''a''\<rparr>
   \<and> validated \<lparr>validated = True, valid = True, errors = [], value = FStr ''a''\<rparr>
   \<and> (valid \<lparr>validated = True, valid = True, errors = [], value = FStr ''a''\<rparr>
      \<longleftrightarrow> errors \<lparr>validated = True, valid = True, errors = ([] :: string option list), value = FStr ''a''\<rparr> = [])"
proof -
  have h: "state (validation_run (init_validation [ex_required] (Some (ex_target ''a''))) [Validate False, Fire, Resume 0])
     = Some \<lparr>validated = True, valid = True, errors = [], value = FStr ''a''\<rparr>"
    by (simp add: validation_ops validation_examples Let_def)
  show ?thesis using h published_state_consistent[OF h] by blast
qed

theorem last_call_wins_witness:
  "0 < next_call (validation_run (init_validation [ex_required] (Some (ex_target ''a''))) [Validate False, Validate False])
   \<and> validationReject (validation_run (init_validation [ex_required] (Some (ex_target ''a''))) [Validate False, Validate False]) \<noteq> Some 0
   \<and> settled (validation_run (init_validation [ex_required] (Some (ex_target ''a''))) [Validate False, Validate False]) 0 \<noteq> None"
proof -
  have h1: "0 < next_call (validation_run (init_validation [ex_required] (Some (ex_target ''a''))) [Validate False, Validate False])"
    by (simp add: validation_ops validation_examples Let_def)
  have h2: "validationReject (validation_run (init_validation [ex_required] (Some (ex_target ''a''))) [Validate False, Validate False]) \<noteq> Some 0"
    by (simp add: validation_ops validation_examples Let_def)
  show ?thesis using h1 h2 last_call_wins[OF h1 h2] by blast
qed

theorem validate_skip_witness:
  "validation_inv (validation_run ex_field [Validate False, Fire, Resume 0])
   \<and> target (validation_run ex_field [Validate False, Fire, Resume 0]) \<noteq> None
   \<and> state (validation_run ex_field [Validate False, Fire, Resume 0]) = Some \<lparr>validated = True, valid = True, errors = [], value = FStr ''a''\<rparr>
   \<and> js_strict_eq (FStr ''a'') (read_value (validation_run ex_field [Validate False, Fire, Resume 0]))
   \<and> (let w = validation_run (validation_run ex_field [Validate False, Fire, Resume 0]) [Validate False, Fire]
      in settled w (next_call (validation_run ex_field [Validate False, Fire, Resume 0])) = Some (Resolved True)
         \<and> state w = state (validation_run ex_field [Validate False, Fire, Resume 0])
         \<and> dispatched w = dispatched (validation_run ex_field [Validate False, Fire, Resume 0])
         \<and> runs w = runs (validation_run ex_field [Validate False, Fire, Resume 0]))"
proof -
  let ?v = "validation_run ex_field [Validate False, Fire, Resume 0]"
  have h1: "validation_inv ?v" unfolding ex_field_def by (rule reachable_validation_inv)
  have h2: "target ?v \<noteq> None" by (simp add: validation_ops validation_examples Let_def)
  have h3: "state ?v = Some \<lparr>validated = True, valid = True, errors = [], value = FStr ''a''\<rparr>"
    by (simp add: validation_ops validation_examples Let_def)
  have h4: "js_strict_eq (value \<lparr>validated = True, valid = True, errors = [], value = FStr ''a''\<rparr>) (read_value ?v)"
    by (simp add: validation_ops validation_examples Let_def)
  show ?thesis using h1 h2 h3 h4 validate_skip[OF h1 h2 h3 h4] by simp
qed

theorem validate_supersedes_witness:
  "validation_inv (validation_run ex_field [Validate False])
   \<and> target (validation_run ex_field [Validate False]) = Some (ex_target ''a'')
   \<and> timeout (validation_run ex_field [Validate False]) = Some (0, False)
   \<and> settled (validate True (validation_run ex_field [Validate False])) 0 = Some (Resolved False)
   \<and> timeout (validate True (validation_run ex_field [Validate False])) = Some (next_call (validation_run ex_field [Validate False]), True)"
proof -
  let ?v = "validation_run ex_field [Validate False]"
  have h1: "validation_inv ?v" unfolding ex_field_def by (rule reachable_validation_inv)
  have h2: "target ?v = Some (ex_target ''a'')" by (simp add: validation_ops validation_examples Let_def)
  have h3: "timeout ?v = Some (0, False)" by (simp add: validation_ops validation_examples Let_def)
  show ?thesis using h1 h2 h3 validate_supersedes[OF h1 h2 h3, of True] by blast
qed

theorem superseded_run_overwrites_state_witness:
  "let w = validation_run (validate False (validation_run ex_field [Validate False, Fire])) (replicate 1 (Resume 0))
   in settled w 0 = Some (Resolved False) \<and> validationReject w = Some 1 \<and> settled w 1 = None
      \<and> state w = Some \<lparr>validated = True, valid = True, errors = [], value = FStr ''a''\<rparr>"
proof -
  define v where "v = validation_run ex_field [Validate False, Fire]"
  let ?r = "\<lparr>r_call = 0, r_value = FStr ''a'', r_pending = [ex_required], r_valid = True, r_errors = []\<rparr>"
  have h1: "validation_inv v" unfolding v_def ex_field_def by (rule reachable_validation_inv)
  have h2: "target v = Some (set_validity '' '' (ex_target ''a''))"
    and h3: "runs v = [] @ [?r]" and h5: "validationReject v = Some (r_call ?r)"
    and h6: "settled v (r_call ?r) = None" and nc: "next_call v = 1"
    by (simp_all add: v_def validation_ops validation_examples Let_def)
  have h4: "\<forall>r' \<in> set []. r_call r' \<noteq> r_call ?r" by simp
  have h7: "r_pending ?r \<noteq> []" by simp
  have h8: "run_validators (r_pending ?r) (r_value ?r) = Some []" by (simp add: ex_required_def)
  show ?thesis
    using superseded_run_overwrites_state[OF h1 h2 h3 h4 h5 h6 h7 h8, of False] nc
    unfolding v_def by (simp add: Let_def)
qed

theorem validator_throw_hangs_witness:
  "validation_inv (init_validation [ex_throwing] (Some (ex_target ''a'')))
   \<and> settled (validation_run (init_validation [ex_throwing] (Some (ex_target ''a''))) [Validate False, Fire, Resume 0]) 0 = None
   \<and> settled (validate False (validation_run (init_validation [ex_throwing] (Some (ex_target ''a''))) [Validate False, Fire, Resume 0])) 0
       = Some (Resolved False)"
proof -
  let ?v = "init_validation [ex_throwing] (Some (ex_target ''a''))"
  have h1: "validation_inv ?v" by (rule init_validation_inv)
  have h2: "target ?v = Some (ex_target ''a'')" by (simp add: init_validation_def)
  have h3: "t_type (ex_target ''a'') \<noteq> ''radio''" by (simp add: ex_target_def)
  have h4: "False \<or> value_changed ?v" by (simp add: value_changed_def init_validation_def)
  have h5: "run_validators (validators ?v) (read_value ?v) = None"
    by (simp add: init_validation_def ex_throwing_def)
  show ?thesis using h1 validator_throw_hangs[OF h1 h2 h3 h4 h5, of False]
    by (simp add: Let_def init_validation_def)
qed

theorem fresh_object_always_changed_witness:
  "let t = (ex_target '''')\<lparr>t_type := ''date'', t_valueAsDate := True\<rparr>;
       v = validation_run (init_validation [] (Some t)) [Validate False, Fire]
   in state v \<noteq> None \<and> value_changed v"
proof -
  let ?t = "(ex_target '''')\<lparr>t_type := ''date'', t_valueAsDate := True\<rparr>"
  let ?v = "validation_run (init_validation [] (Some ?t)) [Validate False, Fire]"
  have h1: "validation_inv ?v" by (rule reachable_validation_inv)
  have h2: "target ?v = Some (set_validity '''' ?t)"
    by (simp add: validation_ops init_validation_def ex_target_def Let_def)
  have h3: "t_kind (set_validity '''' ?t) = KInput" by (simp add: set_validity_def ex_target_def)
  have h4: "(t_type (set_validity '''' ?t) = ''date'' \<and> t_valueAsDate (set_validity '''' ?t))
            \<or> (t_type (set_validity '''' ?t) = ''number'' \<and> t_valueAsNumber (set_validity '''' ?t) = None)"
    by (simp add: set_validity_def)
  have h5: "state ?v \<noteq> None" by (simp add: validation_ops init_validation_def ex_target_def Let_def)
  show ?thesis unfolding Let_def using h5 fresh_object_always_changed[OF h1 h2 h3 h4] by blast
qed

theorem validate_radio_witness:
  "let t = (ex_target ''on'')\<lparr>t_type := ''radio''\<rparr>; v = init_validation [ex_required] (Some t)
   in settled (validation_run v [Validate False, Fire]) 0 = Some (Resolved True)
      \<and> state (validation_run v [Validate False, Fire]) = None"
proof -
  let ?t = "(ex_target ''on'')\<lparr>t_type := ''radio''\<rparr>"
  let ?v = "init_validation [ex_required] (Some ?t)"
  have h1: "validation_inv ?v" by (rule init_validation_inv)
  have h2: "target ?v = Some ?t" by (simp add: init_validation_def)
  have h3: "t_type ?t = ''radio''" by simp
  have h4: "False \<or> value_changed ?v" by (simp add: value_changed_def init_validation_def)
  show ?thesis using validate_radio[OF h1 h2 h3 h4] by (simp add: Let_def init_validation_def)
qed

end
