(* ===== verification/InputValidation.thy ===== *)
theory InputValidation
  imports Validation
begin

text \<open>
  The configuration front of a field, class \<open>InputValidation\<close> of
  \<open>src/component/validation/input-validation.tsx\<close>: \<open>render()\<close> turns the
  declarative attributes into a validator list for the \<open>Validation\<close> it
  renders, \<open>onAfterRender()\<close> finds the input child and propagates
  \<open>formIgnore\<close>, \<open>readonly\<close> and \<open>disabled\<close> to it.  The built-in
  validators come from the st-validate library and are parameters
  (\<open>builtin_lib\<close>); bounds and patterns are type parameters.
\<close>

record ('b, 'p) builtin_lib =
  lib_required :: validator
  lib_maxLength :: "int \<Rightarrow> validator"
  lib_minLength :: "int \<Rightarrow> validator"
  lib_max :: "'b \<Rightarrow> validator"
  lib_min :: "'b \<Rightarrow> validator"
  lib_pattern :: "'p \<Rightarrow> validator"

text \<open>
  The attributes; an optional one is \<open>None\<close> when \<open>typeof\<close> it is
  \<open>'undefined'\<close>.  \<open>max\<close> and \<open>min\<close> clash with HOL's constants and carry a
  suffix.
\<close>

record ('b, 'p) input_attrs =
  formIgnore :: bool
  readonly :: bool
  disabled :: bool
  required :: "bool option"
  maxLength :: "int option"
  minLength :: "int option"
  max_attr :: "'b option"
  min_attr :: "'b option"
  pattern :: "'p option"
  custom_validators :: "validator list"

datatype ierror = BindingError

subsection \<open>render()\<close>

definition opt_validator :: "('a \<Rightarrow> validator) \<Rightarrow> 'a option \<Rightarrow> validator list" where
  "opt_validator mk a = (case a of Some x \<Rightarrow> [mk x] | None \<Rightarrow> [])"

text \<open>
  \<open>internalValidators\<close>: one push per attribute that is not
  \<open>undefined\<close>, in the order required, maxLength, minLength, max, min,
  pattern.  The test is on the type only, so \<open>required={false}\<close> pushes
  \<open>required\<close> as well.
\<close>

definition internal_validators :: "('b, 'p) builtin_lib \<Rightarrow> ('b, 'p) input_attrs \<Rightarrow> validator list" where
  "internal_validators lib a =
     opt_validator (\<lambda>_. lib_required lib) (required a) @
     opt_validator (lib_maxLength lib) (maxLength a) @
     opt_validator (lib_minLength lib) (minLength a) @
     opt_validator (lib_max lib) (max_attr a) @
     opt_validator (lib_min lib) (min_attr a) @
     opt_validator (lib_pattern lib) (pattern a)"

text \<open>\<open>mergeArrays(internalValidators, this.validators)\<close>, a concatenation.\<close>

definition render_validators :: "('b, 'p) builtin_lib \<Rightarrow> ('b, 'p) input_attrs \<Rightarrow> validator list" where
  "render_validators lib a = internal_validators lib a @ custom_validators a"

subsection \<open>onAfterRender()\<close>

text \<open>
  \<open>querySelector('input')\<close>: the first input among the descendants, in
  document order, changed by \<open>g\<close>; \<open>None\<close> when there is none.
\<close>

fun update_first_input :: "(felem \<Rightarrow> felem) \<Rightarrow> felem list \<Rightarrow> felem list option" where
  "update_first_input g [] = None"
| "update_first_input g (e # es) =
     (if e_tag e = EInput then Some (g e # es) else map_option (Cons e) (update_first_input g es))"

definition apply_input_attrs :: "('b, 'p) input_attrs \<Rightarrow> felem \<Rightarrow> felem" where
  "apply_input_attrs a e =
     (let e1 = (if formIgnore a then e\<lparr>e_formIgnore := True\<rparr> else e);
          e2 = (if readonly a then e1\<lparr>e_readOnly := True\<rparr> else e1)
      in if disabled a then e2\<lparr>e_disabled := True\<rparr> else e2)"

definition input_after_render :: "('b, 'p) input_attrs \<Rightarrow> felem list \<Rightarrow> ierror + felem list" where
  "input_after_render a els =
     (case update_first_input (apply_input_attrs a) els of
        None \<Rightarrow> Inl BindingError
      | Some els' \<Rightarrow> Inr els')"

text \<open>\<open>validate(force)\<close> delegates to the rendered \<open>Validation\<close>.\<close>

definition input_validate :: "bool \<Rightarrow> validation \<Rightarrow> validation" where
  "input_validate force v = validate force v"

subsection \<open>Example library and attributes\<close>

text \<open>
  Stand-ins for the st-validate constructors, for the witnesses only:
  presence, string length bounds, numeric bounds, and a pattern test that
  accepts everything.
\<close>

definition ex_lib :: "(int, string) builtin_lib" where
  "ex_lib =
     \<lparr>lib_required = \<lparr>v_name = Some ''required'', v_fun = (\<lambda>x. VReturn (x \<noteq> FStr ''''))\<rparr>,
      lib_maxLength = (\<lambda>n. \<lparr>v_name = Some ''maxLength'',
         v_fun = (\<lambda>x. case x of FStr s \<Rightarrow> VReturn (int (length s) \<le> n) | _ \<Rightarrow> VReturn True)\<rparr>),
      lib_minLength = (\<lambda>n. \<lparr>v_name = Some ''minLength'',
         v_fun = (\<lambda>x. case x of FStr s \<Rightarrow> VReturn (n \<le> int (length s)) | _ \<Rightarrow> VReturn True)\<rparr>),
      lib_max = (\<lambda>b. \<lparr>v_name = Some ''max'', v_fun = (\<lambda>x. case x of FNum m \<Rightarrow> VReturn (m \<le> b) | _ \<Rightarrow> VReturn True)\<rparr>),
      lib_min = (\<lambda>b. \<lparr>v_name = Some ''min'', v_fun = (\<lambda>x. case x of FNum m \<Rightarrow> VReturn (b \<le> m) | _ \<Rightarrow> VReturn True)\<rparr>),
      lib_pattern = (\<lambda>p. \<lparr>v_name = Some ''pattern'', v_fun = (\<lambda>x. VReturn True)\<rparr>)\<rparr>"

text \<open>\<open><InputValidation required maxLength={5} validators={[custom]}>\<close>.\<close>

definition ex_attrs :: "(int, string) input_attrs" where
  "ex_attrs =
     \<lparr>formIgnore = False, readonly = False, disabled = False, required = Some True, maxLength = Some 5,
      minLength = None, max_attr = None, min_attr = None, pattern = None,
      custom_validators = [\<lparr>v_name = Some ''custom'', v_fun = (\<lambda>x. VReturn (x \<noteq> FStr ''reserved''))\<rparr>]\<rparr>"

definition ex_textarea :: felem where
  "ex_textarea = \<lparr>e_tag = ETextArea, e_type = ''textarea'', e_name = ''comment'', e_value = FStr '''',
     e_checked = False, e_disabled = False, e_readOnly = False, e_readonly = False, e_props = [],
     e_formIgnore = False, e_valueFunction = None\<rparr>"

lemmas input_examples = ex_lib_def ex_attrs_def render_validators_def internal_validators_def opt_validator_def

subsection \<open>Lemmas\<close>

lemma run_validators_append:
  "run_validators (xs @ ys) x =
     Option.bind (run_validators xs x) (\<lambda>es1. map_option (\<lambda>es2. es1 @ es2) (run_validators ys x))"
proof (induction xs)
  case Nil
  show ?case by (cases "run_validators ys x") simp_all
next
  case (Cons f xs)
  show ?case
    using Cons.IH by (cases "run_validators xs x"; cases "run_validators ys x") (auto split: vresult.split)
qed

lemma update_first_input_None:
  "(\<forall>e \<in> set els. e_tag e \<noteq> EInput) \<Longrightarrow> update_first_input g els = None"
  by (induction els) auto

subsection \<open>Properties\<close>

text \<open>
  C18.  The errors of a rendered field list the failures of the built-in
  constraints before those of the caller's custom validators.
\<close>

theorem render_errors_order:
  assumes "run_validators (render_validators lib a) x = Some es"
  shows "\<exists>es1 es2. es = es1 @ es2 \<and> run_validators (internal_validators lib a) x = Some es1
                   \<and> run_validators (custom_validators a) x = Some es2"
  using assms by (auto simp: render_validators_def run_validators_append split: Option.bind_splits)

text \<open>
  C20.  \<open>required={false}\<close> still installs the \<open>required\<close> validator: the
  code tests \<open>typeof this.required\<close>, not its value.
\<close>

theorem required_false_still_required:
  "required a = Some False \<Longrightarrow> lib_required lib \<in> set (render_validators lib a)"
  by (simp add: render_validators_def internal_validators_def opt_validator_def)

text \<open>
  C21.  Without an \<open>input\<close> among its children \<open>onAfterRender\<close> fails with
  the binding error, also when a \<open>textarea\<close> is present (which a bare
  \<open>Validation\<close> would accept).
\<close>

theorem after_render_needs_input:
  "(\<forall>e \<in> set els. e_tag e \<noteq> EInput) \<Longrightarrow> input_after_render a els = Inl BindingError"
  by (simp add: input_after_render_def update_first_input_None)

subsection \<open>Witnesses\<close>

theorem render_errors_order_witness:
  "run_validators (render_validators ex_lib ex_attrs) (FStr ''reserved'') = Some [Some ''maxLength'', Some ''custom'']
   \<and> (\<exists>es1 es2. [Some ''maxLength'', Some ''custom''] = es1 @ es2
        \<and> run_validators (internal_validators ex_lib ex_attrs) (FStr ''reserved'') = Some es1
        \<and> run_validators (custom_validators ex_attrs) (FStr ''reserved'') = Some es2)"
proof -
  have h: "run_validators (render_validators ex_lib ex_attrs) (FStr ''reserved'') = Some [Some ''maxLength'', Some ''custom'']"
    by (simp add: input_examples)
  show ?thesis using h render_errors_order[OF h] by blast
qed

theorem required_false_still_required_witness:
  "required (ex_attrs\<lparr>required := Some False\<rparr>) = Some False
   \<and> lib_required ex_lib \<in> set (render_validators ex_lib (ex_attrs\<lparr>required := Some False\<rparr>))"
proof -
  have h: "required (ex_attrs\<lparr>required := Some False\<rparr>) = Some False" by simp
  show ?thesis using h required_false_still_required[OF h, of ex_lib] by blast
qed

theorem after_render_needs_input_witness:
  "e_tag ex_textarea \<noteq> EInput \<and> input_after_render ex_attrs [ex_textarea] = Inl BindingError"
proof -
  have h: "\<forall>e \<in> set [ex_textarea]. e_tag e \<noteq> EInput" by (simp add: ex_textarea_def)
  show ?thesis using after_render_needs_input[OF h, of ex_attrs] by (simp add: ex_textarea_def)
qed

end
