(* ===== verification/System.thy ===== *)
theory System
  imports Form InputValidation
begin

text \<open>
  \<open>Form.validate()\<close> (\<open>src/component/form/form.tsx\<close>, lines 75--94) run
  against the fields it validates.  A system state holds the \<open>Validation\<close>
  components by identity, the DOM of forms, the property name under which
  \<open>getElements\<close> looks for validators, and one task per \<open>Form.validate()\<close>
  call.  A task is at one of the two \<open>await\<close>s of the method: waiting for
  its fields' calls (\<open>Promise.all\<close> of \<open>element.validate(force)\<close>), or
  for its sub-forms' tasks.  Steps are a form's \<open>validate()\<close> call, a step
  of one field (its timer, a validator completing, a call from a DOM event),
  and the resumption of a task whose awaited promises have all settled; the
  order of steps is free, so every schedule of the event loop is a list of
  steps.
\<close>

datatype fphase = AwaitFields | AwaitSubs bool | Done | Stuck

record ftask =
  t_form :: nat
  t_force :: bool
  t_calls :: "(nat \<times> call_id) list"
  t_subs :: "nat list"
  t_phase :: fphase
  t_result :: "bool option"

text \<open>\<open>FromValidationDetail\<close>, the detail of a \<open>formValidation\<close> event.\<close>

record FromValidationDetail =
  fvd_valid :: bool
  fvd_state :: "(string \<times> jsval) list option"

record sys =
  s_fields :: "nat \<rightharpoonup> validation"
  s_dom :: dom
  s_prop :: string
  s_tasks :: "ftask list"
  s_events :: "(nat \<times> FromValidationDetail) list"

subsection \<open>Starting a validation\<close>

text \<open>
  \<open>this.getElements().map(element => element.validate(force))\<close>: the calls
  are made one after the other, synchronously, before the first \<open>await\<close>.
\<close>

fun call_fields :: "bool \<Rightarrow> nat list \<Rightarrow> sys \<Rightarrow> sys \<times> (nat \<times> call_id) list" where
  "call_fields force [] s = (s, [])"
| "call_fields force (c # cs) s =
     (case s_fields s c of
        None \<Rightarrow> call_fields force cs s
      | Some v \<Rightarrow>
          (let (s', calls) = call_fields force cs (s\<lparr>s_fields := (s_fields s)(c \<mapsto> validate force v)\<rparr>)
           in (s', (c, next_call v) # calls)))"

text \<open>
  \<open>validate(force)\<close> of form \<open>f\<close> up to its first \<open>await\<close>: the field
  calls, and a new task waiting for them.
\<close>

definition start_form :: "bool \<Rightarrow> nat \<Rightarrow> sys \<Rightarrow> sys \<times> nat" where
  "start_form force f s =
     (let els = (case d_forms (s_dom s) f of Some fm \<Rightarrow> f_elements fm | None \<Rightarrow> []);
          (s', calls) = call_fields force (getElements (s_prop s) els) s
      in (s'\<lparr>s_tasks := s_tasks s' @ [\<lparr>t_form = f, t_force = force, t_calls = calls, t_subs = [],
                                       t_phase = AwaitFields, t_result = None\<rparr>]\<rparr>,
          length (s_tasks s')))"

text \<open>\<open>this.getSubForm().map(element => element.validate(force))\<close>.\<close>

fun start_subforms :: "bool \<Rightarrow> (nat \<times> form) list \<Rightarrow> sys \<Rightarrow> sys \<times> nat list" where
  "start_subforms force [] s = (s, [])"
| "start_subforms force (g # gs) s =
     (let (s1, t) = start_form force (fst g) s; (s2, ts) = start_subforms force gs s1 in (s2, t # ts))"

subsection \<open>Resuming a task\<close>

definition call_outcome :: "sys \<Rightarrow> nat \<times> call_id \<Rightarrow> outcome option" where
  "call_outcome s ck = (case s_fields s (fst ck) of Some v \<Rightarrow> settled v (snd ck) | None \<Rightarrow> None)"

definition set_task :: "nat \<Rightarrow> (ftask \<Rightarrow> ftask) \<Rightarrow> sys \<Rightarrow> sys" where
  "set_task i g s = s\<lparr>s_tasks := (s_tasks s)[i := g (s_tasks s ! i)]\<rparr>"

text \<open>
  After \<open>await Promise.all(...)\<close> over the fields: once every call has
  settled.  A rejected call rejects the \<open>Promise.all\<close>; the rejection escapes
  the \<open>async\<close> executor, which never calls \<open>resolve\<close>, so the task is
  stuck.  Otherwise the result so far is whether every call resolved
  \<open>true\<close>, and the sub-forms are started.  A \<open>getSubForm\<close> whose parent walk
  does not end leaves the task stuck as well.
\<close>

definition fields_done :: "nat \<Rightarrow> sys \<Rightarrow> sys" where
  "fields_done i s =
     (if i < length (s_tasks s) \<and> t_phase (s_tasks s ! i) = AwaitFields then
        (let t = s_tasks s ! i; outs = map (call_outcome s) (t_calls t) in
         if None \<in> set outs then s
         else if \<exists>e. Some (Rejected e) \<in> set outs then set_task i (\<lambda>t. t\<lparr>t_phase := Stuck\<rparr>) s
         else
           (let r = (\<forall>x \<in> set outs. x = Some (Resolved True)) in
            case d_forms (s_dom s) (t_form t) of
              None \<Rightarrow> set_task i (\<lambda>t. t\<lparr>t_phase := Stuck\<rparr>) s
            | Some fm \<Rightarrow>
                (case getSubForm (s_dom s) (t_form t) fm of
                   None \<Rightarrow> set_task i (\<lambda>t. t\<lparr>t_phase := Stuck\<rparr>) s
                 | Some subs \<Rightarrow>
                     (let (s', ts) = start_subforms (t_force t) subs s
                      in set_task i (\<lambda>t. t\<lparr>t_subs := ts, t_phase := AwaitSubs r\<rparr>) s'))))
      else s)"

text \<open>
  After \<open>await Promise.all(...)\<close> over the sub-forms: once every sub-task
  has resolved, the result is cleared by any \<open>false\<close>, the
  \<open>formValidation\<close> event carries the result and \<open>getState()\<close>, and the
  task resolves.
\<close>

text \<open>
  \<open>dispatchFormValidation(detail)\<close>: a bubbling \<open>formValidation\<close> event
  whose detail is a copy of \<open>{valid, state}\<close>, recorded with the form that
  dispatched it.
\<close>

definition dispatchFormValidation :: "nat \<Rightarrow> FromValidationDetail \<Rightarrow> sys \<Rightarrow> sys" where
  "dispatchFormValidation f detail s = s\<lparr>s_events := s_events s @ [(f, detail)]\<rparr>"

definition subs_done :: "nat \<Rightarrow> sys \<Rightarrow> sys" where
  "subs_done i s =
     (if i < length (s_tasks s) then
        (case t_phase (s_tasks s ! i) of
           AwaitSubs r \<Rightarrow>
             (let t = s_tasks s ! i; rs = map (\<lambda>j. if j < length (s_tasks s) then t_result (s_tasks s ! j) else None) (t_subs t) in
              if None \<in> set rs then s
              else
                (let r' = (r \<and> (\<forall>x \<in> set rs. x = Some True));
                     st = (case d_forms (s_dom s) (t_form t) of
                             Some fm \<Rightarrow> getState (s_dom s) (t_form t) fm | None \<Rightarrow> None)
                 in set_task i (\<lambda>t. t\<lparr>t_phase := Done, t_result := Some r'\<rparr>)
                      (dispatchFormValidation (t_form t) \<lparr>fvd_valid = r', fvd_state = st\<rparr> s)))
         | _ \<Rightarrow> s)
      else s)"

subsection \<open>Steps\<close>

datatype sevent = FormValidate nat bool | FieldEvent nat vevent | FieldsDone nat | SubsDone nat

fun sys_step :: "sys \<Rightarrow> sevent \<Rightarrow> sys" where
  "sys_step s (FormValidate f force) = fst (start_form force f s)"
| "sys_step s (FieldEvent c e) =
     (case s_fields s c of None \<Rightarrow> s | Some v \<Rightarrow> s\<lparr>s_fields := (s_fields s)(c \<mapsto> validation_step v e)\<rparr>)"
| "sys_step s (FieldsDone i) = fields_done i s"
| "sys_step s (SubsDone i) = subs_done i s"

fun sys_run :: "sys \<Rightarrow> sevent list \<Rightarrow> sys" where
  "sys_run s [] = s"
| "sys_run s (e # es) = sys_run (sys_step s e) es"

subsection \<open>Invariant\<close>

text \<open>
  Settled outcomes only grow, field by field and over the whole system.  A
  task's invariant follows its phase: waiting for the fields it has no
  result and no sub-tasks; waiting for the sub-forms its calls have all
  settled and its flag is whether they all resolved \<open>true\<close>; once done its
  result is that flag and-ed with the sub-tasks' results.
\<close>

definition settled_grows :: "validation \<Rightarrow> validation \<Rightarrow> bool" where
  "settled_grows v w \<longleftrightarrow> (\<forall>k r. settled v k = Some r \<longrightarrow> settled w k = Some r)"

definition outcomes_grow :: "sys \<Rightarrow> sys \<Rightarrow> bool" where
  "outcomes_grow s s' \<longleftrightarrow> (\<forall>ck r. call_outcome s ck = Some r \<longrightarrow> call_outcome s' ck = Some r)"

definition calls_settled :: "sys \<Rightarrow> ftask \<Rightarrow> bool" where
  "calls_settled s t \<longleftrightarrow> (\<forall>ck \<in> set (t_calls t). call_outcome s ck \<noteq> None)"

definition calls_true :: "sys \<Rightarrow> ftask \<Rightarrow> bool" where
  "calls_true s t \<longleftrightarrow> (\<forall>ck \<in> set (t_calls t). call_outcome s ck = Some (Resolved True))"

definition calls_resolved :: "sys \<Rightarrow> ftask \<Rightarrow> bool" where
  "calls_resolved s t \<longleftrightarrow> (\<forall>ck \<in> set (t_calls t). \<exists>b. call_outcome s ck = Some (Resolved b))"

definition subs_settled :: "sys \<Rightarrow> ftask \<Rightarrow> bool" where
  "subs_settled s t \<longleftrightarrow> (\<forall>j \<in> set (t_subs t). j < length (s_tasks s) \<and> t_result (s_tasks s ! j) \<noteq> None)"

definition subs_true :: "sys \<Rightarrow> ftask \<Rightarrow> bool" where
  "subs_true s t \<longleftrightarrow> (\<forall>j \<in> set (t_subs t). j < length (s_tasks s) \<and> t_result (s_tasks s ! j) = Some True)"

definition task_inv :: "sys \<Rightarrow> ftask \<Rightarrow> bool" where
  "task_inv s t \<longleftrightarrow>
     (case t_phase t of
        AwaitFields \<Rightarrow> t_result t = None \<and> t_subs t = []
      | AwaitSubs r \<Rightarrow> t_result t = None \<and> calls_settled s t \<and> calls_resolved s t \<and> (r \<longleftrightarrow> calls_true s t)
                       \<and> (\<forall>j \<in> set (t_subs t). j < length (s_tasks s))
      | Stuck \<Rightarrow> t_result t = None
      | Done \<Rightarrow> calls_settled s t \<and> calls_resolved s t \<and> subs_settled s t
                \<and> t_result t = Some (calls_true s t \<and> subs_true s t))"

definition sys_inv :: "sys \<Rightarrow> bool" where
  "sys_inv s \<longleftrightarrow> (\<forall>t \<in> set (s_tasks s). task_inv s t)"

definition sys_grows :: "sys \<Rightarrow> sys \<Rightarrow> bool" where
  "sys_grows s s' \<longleftrightarrow> outcomes_grow s s' \<and> length (s_tasks s) \<le> length (s_tasks s')
     \<and> (\<forall>j < length (s_tasks s). t_result (s_tasks s ! j) \<noteq> None \<longrightarrow> t_result (s_tasks s' ! j) = t_result (s_tasks s ! j))"

definition fresh_task :: "ftask \<Rightarrow> bool" where
  "fresh_task t \<longleftrightarrow> t_phase t = AwaitFields \<and> t_result t = None \<and> t_subs t = []"

text \<open>Every field of \<open>s\<close> satisfying \<open>P\<close> is still there in \<open>s'\<close> and still satisfies \<open>P\<close>.\<close>

definition fields_keep :: "(validation \<Rightarrow> bool) \<Rightarrow> sys \<Rightarrow> sys \<Rightarrow> bool" where
  "fields_keep P s s' \<longleftrightarrow> (\<forall>c v. s_fields s c = Some v \<longrightarrow> P v \<longrightarrow> (\<exists>v'. s_fields s' c = Some v' \<and> P v'))"

abbreviation outs_of :: "sys \<Rightarrow> nat \<Rightarrow> outcome option list" where
  "outs_of s i \<equiv> map (call_outcome s) (t_calls (s_tasks s ! i))"

abbreviation sub_results :: "sys \<Rightarrow> nat \<Rightarrow> bool option list" where
  "sub_results s i \<equiv> map (\<lambda>j. if j < length (s_tasks s) then t_result (s_tasks s ! j) else None) (t_subs (s_tasks s ! i))"

subsection \<open>Example: three nested forms\<close>

text \<open>
  Form 0 holds form 1, which holds form 2; each has one field (Validation
  components 0, 1, 2) with no validators and a target holding \<open>x\<close>.  The
  schedule is the event loop's with equal timer delays: form 0's field
  fires, form 0 starts both descendants, form 1's field fires (its timer was
  set first) and form 1 starts form 2 a second time, which supersedes the
  first call on field 2.
\<close>

definition ex_vel :: "string \<Rightarrow> nat \<Rightarrow> felem" where
  "ex_vel n c = (ex_el n ''x'')\<lparr>e_props := [(''VALIDATION'', c)]\<rparr>"

definition ex_sys :: sys where
  "ex_sys =
     \<lparr>s_fields = [0 \<mapsto> init_validation [] (Some (ex_target ''x'')),
                 1 \<mapsto> init_validation [] (Some (ex_target ''x'')),
                 2 \<mapsto> init_validation [] (Some (ex_target ''x''))],
      s_dom = \<lparr>d_forms = [0 \<mapsto> \<lparr>f_name = ''form'', f_elements = [ex_vel ''a'' 0], f_descendants = [Some 1, Some 2]\<rparr>,
                          1 \<mapsto> \<lparr>f_name = ''child'', f_elements = [ex_vel ''b'' 1], f_descendants = [Some 2]\<rparr>,
                          2 \<mapsto> \<lparr>f_name = ''grandchild'', f_elements = [ex_vel ''c'' 2], f_descendants = []\<rparr>],
               d_parent = [1 \<mapsto> 0, 2 \<mapsto> 1]\<rparr>,
      s_prop = ''VALIDATION'', s_tasks = [], s_events = []\<rparr>"

definition ex_schedule :: "sevent list" where
  "ex_schedule =
     [FormValidate 0 False, FieldEvent 0 Fire, FieldsDone 0,
      FieldEvent 1 Fire, FieldsDone 1, FieldsDone 2, SubsDone 2,
      FieldEvent 2 Fire, FieldsDone 3, SubsDone 3, SubsDone 1, SubsDone 0]"

text \<open>
  The grandchild form of the example alone, its field bound to no element:
  two \<open>Form.validate()\<close> calls, the timer of the first field call, and both
  tasks resumed.
\<close>

definition ex_unbound :: sys where
  "ex_unbound = ex_sys\<lparr>s_fields := (s_fields ex_sys)(2 \<mapsto> init_validation [] None)\<rparr>"

definition ex_unbound_schedule :: "sevent list" where
  "ex_unbound_schedule = [FormValidate 2 False, FieldEvent 2 Fire, FormValidate 2 False, FieldsDone 0, FieldsDone 1]"

subsection \<open>Lemmas\<close>

lemma settled_grows_refl [simp]: "settled_grows v v"
  by (simp add: settled_grows_def)

lemma settled_grows_trans: "settled_grows u v \<Longrightarrow> settled_grows v w \<Longrightarrow> settled_grows u w"
  by (simp add: settled_grows_def)

lemma settled_grows_settle: "settled w = settle c r (settled v) \<Longrightarrow> settled_grows v w"
  by (simp add: settled_grows_def settle_mono)

lemma validate_settled_grows: "settled_grows v (validate force v)"
  by (auto simp: settled_grows_def validate_def Let_def settle_mono split: option.split)

lemma finish_run_settled_grows: "settled_grows v (finish_run r v)"
  by (simp add: settled_grows_def finish_run_def dispatchValidation_def Let_def settle_mono)

lemma continue_run_settled_grows: "settled_grows v (continue_run r v)"
  using finish_run_settled_grows[of v r] by (simp add: continue_run_def settled_grows_def)

lemma fire_timeout_settled_grows: "settled_grows v (fire_timeout v)"
proof -
  have "settled_grows v (continue_run r (v\<lparr>timeout := t, next_obj := n, target := tg\<rparr>))" for r t n tg
    using continue_run_settled_grows[of "v\<lparr>timeout := t, next_obj := n, target := tg\<rparr>" r]
    by (simp add: settled_grows_def)
  then show ?thesis
    by (auto simp: fire_timeout_def Let_def settled_grows_def settle_mono split: option.split prod.split)
qed

lemma resume_run_settled_grows: "settled_grows v (resume_run c v)"
proof -
  have "settled_grows v (continue_run r (v\<lparr>runs := rs\<rparr>))" for r rs
    using continue_run_settled_grows[of "v\<lparr>runs := rs\<rparr>" r] by (simp add: settled_grows_def)
  then show ?thesis
    by (auto simp: resume_run_def Let_def settled_grows_def split: option.split list.split vresult.split)
qed

lemma validation_step_settled_grows: "settled_grows v (validation_step v e)"
  by (cases e) (simp_all add: validate_settled_grows fire_timeout_settled_grows resume_run_settled_grows,
                simp add: edit_target_def settled_grows_def)

lemma calls_true_grow: "outcomes_grow s s' \<Longrightarrow> calls_settled s t \<Longrightarrow> calls_true s' t = calls_true s t"
  unfolding outcomes_grow_def calls_settled_def calls_true_def by force

lemma calls_settled_grow: "outcomes_grow s s' \<Longrightarrow> calls_settled s t \<Longrightarrow> calls_settled s' t"
  unfolding outcomes_grow_def calls_settled_def by force

lemma calls_resolved_grow: "outcomes_grow s s' \<Longrightarrow> calls_resolved s t \<Longrightarrow> calls_resolved s' t"
  unfolding outcomes_grow_def calls_resolved_def by blast

lemma subs_grow:
  assumes "sys_grows s s'" and "subs_settled s t"
  shows "subs_settled s' t" and "subs_true s' t = subs_true s t"
  using assms unfolding sys_grows_def subs_settled_def subs_true_def by force+

lemma task_inv_grow: "sys_grows s s' \<Longrightarrow> task_inv s t \<Longrightarrow> task_inv s' t"
  unfolding task_inv_def
  by (auto split: fphase.splits simp: calls_true_grow calls_settled_grow calls_resolved_grow subs_grow sys_grows_def
           dest: order.strict_trans2)

lemma call_outcome_upd [simp]:
  "call_outcome (s\<lparr>s_tasks := ts\<rparr>) = call_outcome s" "call_outcome (s\<lparr>s_events := es\<rparr>) = call_outcome s"
  by (simp_all add: call_outcome_def fun_eq_iff)

lemma outcomes_grow_upd [simp]:
  "outcomes_grow s (s'\<lparr>s_tasks := ts\<rparr>) = outcomes_grow s s'"
  "outcomes_grow s (s'\<lparr>s_events := es\<rparr>) = outcomes_grow s s'"
  by (simp_all add: outcomes_grow_def)

lemma outcomes_grow_refl [simp]: "outcomes_grow s s"
  by (simp add: outcomes_grow_def)

lemma outcomes_grow_trans: "outcomes_grow s1 s2 \<Longrightarrow> outcomes_grow s2 s3 \<Longrightarrow> outcomes_grow s1 s3"
  by (simp add: outcomes_grow_def)

lemma outcomes_grow_field:
  "s_fields s c = Some v \<Longrightarrow> settled_grows v w \<Longrightarrow> outcomes_grow s (s\<lparr>s_fields := (s_fields s)(c \<mapsto> w)\<rparr>)"
  by (auto simp: outcomes_grow_def call_outcome_def settled_grows_def split: option.splits)

lemma call_fields_props:
  "call_fields force xs s = (s', cs) \<Longrightarrow>
     s_tasks s' = s_tasks s \<and> s_dom s' = s_dom s \<and> s_prop s' = s_prop s \<and> outcomes_grow s s'"
proof (induction xs arbitrary: s s' cs)
  case Nil
  then show ?case by simp
next
  case (Cons c xs)
  show ?case
  proof (cases "s_fields s c")
    case None
    with Cons show ?thesis by simp
  next
    case (Some v)
    let ?s1 = "s\<lparr>s_fields := (s_fields s)(c \<mapsto> validate force v)\<rparr>"
    obtain s2 cs2 where r: "call_fields force xs ?s1 = (s2, cs2)" by (cases "call_fields force xs ?s1")
    with Cons.prems Some have "s' = s2" by (simp add: Let_def)
    moreover have "outcomes_grow s ?s1"
      using Some validate_settled_grows by (rule outcomes_grow_field)
    ultimately show ?thesis using Cons.IH[OF r] by (auto intro: outcomes_grow_trans)
  qed
qed

lemma start_form_props:
  "start_form force f s = (s', k) \<Longrightarrow>
     (\<exists>t. s_tasks s' = s_tasks s @ [t] \<and> fresh_task t) \<and> k = length (s_tasks s)
     \<and> s_dom s' = s_dom s \<and> s_prop s' = s_prop s \<and> outcomes_grow s s'"
proof -
  assume a: "start_form force f s = (s', k)"
  let ?els = "case d_forms (s_dom s) f of Some fm \<Rightarrow> f_elements fm | None \<Rightarrow> []"
  obtain s1 cs where c: "call_fields force (getElements (s_prop s) ?els) s = (s1, cs)"
    by (cases "call_fields force (getElements (s_prop s) ?els) s")
  show ?thesis using a c call_fields_props[OF c] by (auto simp: start_form_def fresh_task_def)
qed

lemma start_subforms_props:
  "start_subforms force gs s = (s', ks) \<Longrightarrow>
     (\<exists>news. s_tasks s' = s_tasks s @ news \<and> (\<forall>t \<in> set news. fresh_task t))
     \<and> (\<forall>k \<in> set ks. k < length (s_tasks s')) \<and> s_dom s' = s_dom s \<and> s_prop s' = s_prop s
     \<and> outcomes_grow s s'"
proof (induction gs arbitrary: s s' ks)
  case Nil
  then show ?case by simp
next
  case (Cons g gs)
  obtain s1 k where a: "start_form force (fst g) s = (s1, k)" by (cases "start_form force (fst g) s")
  obtain s2 ks2 where b: "start_subforms force gs s1 = (s2, ks2)" by (cases "start_subforms force gs s1")
  have eq: "s' = s2" "ks = k # ks2" using Cons.prems a b by simp_all
  note A = start_form_props[OF a] and B = Cons.IH[OF b]
  from A B show ?case unfolding eq by (force intro: outcomes_grow_trans)
qed

lemma sys_grows_append:
  "outcomes_grow s s' \<Longrightarrow> s_tasks s' = s_tasks s @ news \<Longrightarrow> sys_grows s s'"
  by (simp add: sys_grows_def nth_append)

lemma sys_inv_append:
  assumes "sys_inv s" and "outcomes_grow s s'" and "s_tasks s' = s_tasks s @ news"
    and "\<forall>t \<in> set news. fresh_task t"
  shows "sys_inv s'"
proof -
  have g: "sys_grows s s'" using assms(2,3) by (rule sys_grows_append)
  have "task_inv s' t" if "t \<in> set news" for t
    using that assms(4) by (simp add: task_inv_def fresh_task_def)
  with assms(1,3) g show ?thesis unfolding sys_inv_def by (auto intro: task_inv_grow)
qed

lemma set_task_tasks [simp]:
  "s_tasks (set_task i g s) = (s_tasks s)[i := g (s_tasks s ! i)]"
  "s_fields (set_task i g s) = s_fields s" "s_dom (set_task i g s) = s_dom s"
  by (simp_all add: set_task_def)

lemma sys_inv_set_task:
  assumes inv: "sys_inv s" and i: "i < length (s_tasks s)"
    and res: "t_result (s_tasks s ! i) = None"
    and new: "task_inv (set_task i g s) (g (s_tasks s ! i))"
  shows "sys_inv (set_task i g s)"
proof -
  have oc: "call_outcome (set_task i g s) = call_outcome s"
    by (simp add: call_outcome_def fun_eq_iff)
  have gr: "sys_grows s (set_task i g s)"
    unfolding sys_grows_def outcomes_grow_def oc
  proof (intro conjI allI impI)
    fix j assume "j < length (s_tasks s)" "t_result (s_tasks s ! j) \<noteq> None"
    with res show "t_result (s_tasks (set_task i g s) ! j) = t_result (s_tasks s ! j)"
      by (cases "j = i") auto
  qed simp_all
  have "task_inv (set_task i g s) t" if "t \<in> set ((s_tasks s)[i := g (s_tasks s ! i)])" for t
  proof -
    from that have "t = g (s_tasks s ! i) \<or> t \<in> set (s_tasks s)"
      by (auto dest: set_update_subset_insert[THEN subsetD])
    then show ?thesis using new inv gr unfolding sys_inv_def by (auto intro: task_inv_grow)
  qed
  then show ?thesis by (simp add: sys_inv_def)
qed

lemma task_inv_fields [simp]:
  "calls_settled (set_task i g s) = calls_settled s" "calls_true (set_task i g s) = calls_true s"
  "calls_resolved (set_task i g s) = calls_resolved s"
  by (simp_all add: calls_settled_def calls_true_def calls_resolved_def call_outcome_def fun_eq_iff)

lemma start_form_inv: "sys_inv s \<Longrightarrow> sys_inv (fst (start_form force f s))"
proof -
  assume inv: "sys_inv s"
  obtain s' k where a: "start_form force f s = (s', k)" by (cases "start_form force f s")
  from start_form_props[OF a] obtain t where tk: "s_tasks s' = s_tasks s @ [t]" and "fresh_task t"
    and g: "outcomes_grow s s'" by blast
  then have "sys_inv s'" by (intro sys_inv_append[OF inv g tk]) simp
  then show ?thesis using a by simp
qed

lemma field_event_inv: "sys_inv s \<Longrightarrow> sys_inv (sys_step s (FieldEvent c e))"
proof (cases "s_fields s c")
  case None
  then show "sys_inv s \<Longrightarrow> ?thesis" by simp
next
  case (Some v)
  assume inv: "sys_inv s"
  let ?s' = "s\<lparr>s_fields := (s_fields s)(c \<mapsto> validation_step v e)\<rparr>"
  have g: "outcomes_grow s ?s'"
    using Some validation_step_settled_grows by (rule outcomes_grow_field)
  have "sys_inv ?s'" by (rule sys_inv_append[OF inv g, where news = "[]"]) simp_all
  with Some show ?thesis by simp
qed

lemma stuck_inv:
  assumes "sys_inv s" and "i < length (s_tasks s)" and "t_phase (s_tasks s ! i) = AwaitFields"
  shows "sys_inv (set_task i (\<lambda>t. t\<lparr>t_phase := Stuck\<rparr>) s)"
proof (rule sys_inv_set_task[OF assms(1,2)])
  have "task_inv s (s_tasks s ! i)" using assms(1,2) by (simp add: sys_inv_def)
  with assms(3) show res: "t_result (s_tasks s ! i) = None" by (simp add: task_inv_def)
  then show "task_inv (set_task i (\<lambda>t. t\<lparr>t_phase := Stuck\<rparr>) s) ((\<lambda>t. t\<lparr>t_phase := Stuck\<rparr>) (s_tasks s ! i))"
    by (simp add: task_inv_def)
qed

lemma fields_done_skip:
  "\<not> (i < length (s_tasks s) \<and> t_phase (s_tasks s ! i) = AwaitFields) \<Longrightarrow> fields_done i s = s"
  unfolding fields_done_def by meson

lemma fields_done_wait:
  "None \<in> set (outs_of s i) \<Longrightarrow> fields_done i s = s"
  unfolding fields_done_def Let_def by (simp only: if_True if_cancel)

lemma fields_done_cases:
  obtains (same) "fields_done i s = s"
  | (stuck) "i < length (s_tasks s)" "t_phase (s_tasks s ! i) = AwaitFields"
      "fields_done i s = set_task i (\<lambda>t. t\<lparr>t_phase := Stuck\<rparr>) s"
  | (start) subs s' ts where "i < length (s_tasks s)" "t_phase (s_tasks s ! i) = AwaitFields"
      "calls_settled s (s_tasks s ! i)" "calls_resolved s (s_tasks s ! i)"
      "start_subforms (t_force (s_tasks s ! i)) subs s = (s', ts)"
      "fields_done i s = set_task i (\<lambda>t. t\<lparr>t_subs := ts, t_phase := AwaitSubs (calls_true s (s_tasks s ! i))\<rparr>) s'"
proof (cases "i < length (s_tasks s) \<and> t_phase (s_tasks s ! i) = AwaitFields \<and> None \<notin> set (outs_of s i)
              \<and> \<not> (\<exists>e. Some (Rejected e) \<in> set (outs_of s i))")
  case False
  consider (a) "\<not> (i < length (s_tasks s) \<and> t_phase (s_tasks s ! i) = AwaitFields)"
    | (b) "i < length (s_tasks s) \<and> t_phase (s_tasks s ! i) = AwaitFields" "None \<in> set (outs_of s i)"
    | (c) "i < length (s_tasks s) \<and> t_phase (s_tasks s ! i) = AwaitFields" "None \<notin> set (outs_of s i)"
          "\<exists>e. Some (Rejected e) \<in> set (outs_of s i)"
    using False by blast
  then show ?thesis
  proof cases
    case a
    show ?thesis by (intro same) (simp only: fields_done_def if_not_P[OF a])
  next
    case b
    then show ?thesis by (intro same) (simp add: fields_done_def)
  next
    case c
    then show ?thesis by (intro stuck) (simp_all add: fields_done_def)
  qed
next
  case True
  then have ph: "i < length (s_tasks s)" "t_phase (s_tasks s ! i) = AwaitFields"
    and cs: "calls_settled s (s_tasks s ! i)" and cr: "calls_resolved s (s_tasks s ! i)"
    and r: "(\<forall>x \<in> set (outs_of s i). x = Some (Resolved True)) = calls_true s (s_tasks s ! i)"
    by (auto simp: calls_settled_def calls_resolved_def calls_true_def image_iff) (metis option.exhaust outcome.exhaust)+
  show ?thesis
  proof (cases "d_forms (s_dom s) (t_form (s_tasks s ! i))")
    case None
    then show ?thesis using True stuck ph unfolding fields_done_def Let_def by simp
  next
    case (Some fm)
    show ?thesis
    proof (cases "getSubForm (s_dom s) (t_form (s_tasks s ! i)) fm")
      case None
      then show ?thesis using True Some stuck ph unfolding fields_done_def Let_def by simp
    next
      case (Some subs)
      obtain s' ts where st: "start_subforms (t_force (s_tasks s ! i)) subs s = (s', ts)"
        by (cases "start_subforms (t_force (s_tasks s ! i)) subs s")
      show ?thesis
        using True \<open>d_forms _ _ = Some fm\<close> Some st r by (intro start[OF ph cs cr st]) (simp add: fields_done_def Let_def)
    qed
  qed
qed

lemma calls_task_upd [simp]:
  "calls_settled s (t\<lparr>t_subs := x\<rparr>) = calls_settled s t" "calls_true s (t\<lparr>t_subs := x\<rparr>) = calls_true s t"
  "calls_settled s (t\<lparr>t_phase := p\<rparr>) = calls_settled s t" "calls_true s (t\<lparr>t_phase := p\<rparr>) = calls_true s t"
  "calls_settled s (t\<lparr>t_result := b\<rparr>) = calls_settled s t" "calls_true s (t\<lparr>t_result := b\<rparr>) = calls_true s t"
  "calls_resolved s (t\<lparr>t_subs := x\<rparr>) = calls_resolved s t" "calls_resolved s (t\<lparr>t_phase := p\<rparr>) = calls_resolved s t"
  "calls_resolved s (t\<lparr>t_result := b\<rparr>) = calls_resolved s t"
  by (simp_all add: calls_settled_def calls_true_def calls_resolved_def)

lemma sys_inv_nth: "sys_inv s \<Longrightarrow> i < length (s_tasks s) \<Longrightarrow> task_inv s (s_tasks s ! i)"
  by (simp add: sys_inv_def)

lemma fields_done_inv:
  assumes inv: "sys_inv s" shows "sys_inv (fields_done i s)"
proof (cases rule: fields_done_cases[of i s])
  case same
  then show ?thesis using inv by simp
next
  case stuck
  then show ?thesis using stuck_inv[OF inv] by simp
next
  case (start subs s' ts)
  let ?t = "s_tasks s ! i"
  note P = start_subforms_props[OF start(5)]
  from P obtain news where tk: "s_tasks s' = s_tasks s @ news" and fr: "\<forall>t \<in> set news. fresh_task t"
    by blast
  have g: "outcomes_grow s s'" using P by blast
  have inv': "sys_inv s'" by (rule sys_inv_append[OF inv g tk fr])
  have i': "i < length (s_tasks s')" and ti: "s_tasks s' ! i = ?t"
    using start(1) tk by (simp_all add: nth_append)
  have res: "t_result ?t = None" and nosubs: "t_subs ?t = []"
    using sys_inv_nth[OF inv start(1)] start(2) by (simp_all add: task_inv_def)
  have "task_inv (set_task i (\<lambda>t. t\<lparr>t_subs := ts, t_phase := AwaitSubs (calls_true s ?t)\<rparr>) s')
          (?t\<lparr>t_subs := ts, t_phase := AwaitSubs (calls_true s ?t)\<rparr>)"
    using res P start(3) calls_true_grow[OF g start(3)] calls_settled_grow[OF g start(3)] calls_resolved_grow[OF g start(4)]
    by (simp add: task_inv_def)
  then show ?thesis
    using sys_inv_set_task[OF inv' i'] ti res start(6) by simp
qed

lemma inv_events_upd [simp]:
  "calls_settled (s\<lparr>s_events := es\<rparr>) = calls_settled s" "calls_true (s\<lparr>s_events := es\<rparr>) = calls_true s"
  "subs_settled (s\<lparr>s_events := es\<rparr>) = subs_settled s" "subs_true (s\<lparr>s_events := es\<rparr>) = subs_true s"
  "calls_resolved (s\<lparr>s_events := es\<rparr>) = calls_resolved s"
  by (simp_all add: calls_settled_def calls_true_def calls_resolved_def subs_settled_def subs_true_def fun_eq_iff)

lemma sys_inv_events [simp]: "sys_inv (s\<lparr>s_events := es\<rparr>) = sys_inv s"
  by (simp add: sys_inv_def task_inv_def cong: fphase.case_cong)

lemma subs_task_upd [simp]:
  "subs_settled s (t\<lparr>t_phase := p, t_result := b\<rparr>) = subs_settled s t"
  "subs_true s (t\<lparr>t_phase := p, t_result := b\<rparr>) = subs_true s t"
  by (simp_all add: subs_settled_def subs_true_def)

lemma subs_set_task:
  assumes "subs_settled s t" and "t_result (s_tasks s ! i) = None"
  shows "subs_settled (set_task i g s) t" and "subs_true (set_task i g s) t = subs_true s t"
proof -
  have "s_tasks (set_task i g s) ! j = s_tasks s ! j" if "j \<in> set (t_subs t)" for j
  proof -
    have "j \<noteq> i" using assms that by (auto simp: subs_settled_def)
    then show ?thesis by simp
  qed
  then show "subs_settled (set_task i g s) t" and "subs_true (set_task i g s) t = subs_true s t"
    using assms(1) by (auto simp: subs_settled_def subs_true_def)
qed

lemma None_notin_guarded_map:
  "(None \<notin> set (map (\<lambda>j. if P j then f j else None) xs)) = (\<forall>j \<in> set xs. P j \<and> f j \<noteq> None)"
  by (induction xs) auto

lemma all_guarded_map:
  "(\<forall>x \<in> set (map (\<lambda>j. if P j then f j else None) xs). x = Some b) = (\<forall>j \<in> set xs. P j \<and> f j = Some b)"
  by (induction xs) auto

lemma sub_results_settled: "(None \<notin> set (sub_results s i)) = subs_settled s (s_tasks s ! i)"
  unfolding subs_settled_def by (rule None_notin_guarded_map)

lemma sub_results_true: "(\<forall>x \<in> set (sub_results s i). x = Some True) = subs_true s (s_tasks s ! i)"
  unfolding subs_true_def by (rule all_guarded_map)

lemma set_task_events: "set_task i g (s\<lparr>s_events := es\<rparr>) = (set_task i g s)\<lparr>s_events := es\<rparr>"
  by (cases s) (simp add: set_task_def)

lemma subs_done_cases:
  obtains (same) "subs_done i s = s"
  | (finished) r ev where "i < length (s_tasks s)" "t_phase (s_tasks s ! i) = AwaitSubs r"
      "subs_settled s (s_tasks s ! i)"
      "subs_done i s = (set_task i (\<lambda>t. t\<lparr>t_phase := Done, t_result := Some (r \<and> subs_true s (s_tasks s ! i))\<rparr>) s)
                         \<lparr>s_events := s_events s @ [ev]\<rparr>"
proof (cases "i < length (s_tasks s)")
  case False
  then show ?thesis by (intro same) (simp add: subs_done_def)
next
  case True
  show ?thesis
  proof (cases "t_phase (s_tasks s ! i)")
    case (AwaitSubs r)
    show ?thesis
    proof (cases "subs_settled s (s_tasks s ! i)")
      case False
      then show ?thesis using True AwaitSubs sub_results_settled[of s i]
        by (intro same) (simp add: subs_done_def)
    next
      case st: True
      then show ?thesis using True AwaitSubs sub_results_settled[of s i] sub_results_true[of s i]
        by (intro finished[OF True AwaitSubs st]) (simp add: subs_done_def Let_def dispatchFormValidation_def set_task_events)
    qed
  qed (use True in \<open>(intro same; simp add: subs_done_def)+\<close>)
qed

lemma subs_done_inv:
  assumes inv: "sys_inv s" shows "sys_inv (subs_done i s)"
proof (cases rule: subs_done_cases[of i s])
  case same
  then show ?thesis using inv by simp
next
  case (finished r ev)
  let ?t = "s_tasks s ! i"
  have ti: "task_inv s ?t" by (rule sys_inv_nth[OF inv finished(1)])
  then have res: "t_result ?t = None" and cs: "calls_settled s ?t" and cr: "calls_resolved s ?t"
    and r: "r = calls_true s ?t"
    using finished(2) by (simp_all add: task_inv_def)
  have "task_inv (set_task i (\<lambda>t. t\<lparr>t_phase := Done, t_result := Some (r \<and> subs_true s ?t)\<rparr>) s)
          (?t\<lparr>t_phase := Done, t_result := Some (r \<and> subs_true s ?t)\<rparr>)"
    using cs cr r subs_set_task[OF finished(3) res] by (simp add: task_inv_def)
  then show ?thesis using sys_inv_set_task[OF inv finished(1) res] finished(4) by simp
qed

lemma sys_step_inv: "sys_inv s \<Longrightarrow> sys_inv (sys_step s e)"
  by (cases e) (simp_all add: start_form_inv field_event_inv fields_done_inv subs_done_inv del: sys_step.simps(2))

lemma sys_run_inv: "sys_inv s \<Longrightarrow> sys_inv (sys_run s es)"
  by (induction es arbitrary: s) (simp_all add: sys_step_inv)

lemma sys_inv_init: "s_tasks s = [] \<Longrightarrow> sys_inv s"
  by (simp add: sys_inv_def)

lemmas ex_sys_run = ex_sys_def ex_schedule_def start_form_def fields_done_def subs_done_def dispatchFormValidation_def set_task_def
      call_outcome_def validation_ops init_validation_def ex_target_def ex_vel_def ex_el_def form_ops Let_def

lemma start_form_task:
  "start_form force f s = (s', k) \<Longrightarrow>
     \<exists>cs. s_tasks s' = s_tasks s @ [\<lparr>t_form = f, t_force = force, t_calls = cs, t_subs = [],
                                       t_phase = AwaitFields, t_result = None\<rparr>]"
proof -
  assume a: "start_form force f s = (s', k)"
  let ?els = "case d_forms (s_dom s) f of Some fm \<Rightarrow> f_elements fm | None \<Rightarrow> []"
  obtain s1 cs where c: "call_fields force (getElements (s_prop s) ?els) s = (s1, cs)"
    by (cases "call_fields force (getElements (s_prop s) ?els) s")
  show ?thesis using a c call_fields_props[OF c] by (auto simp: start_form_def)
qed

lemma start_subforms_tasks:
  "start_subforms force gs s = (s', ks) \<Longrightarrow>
     map t_form (drop (length (s_tasks s)) (s_tasks s')) = map fst gs
     \<and> (\<forall>t \<in> set (drop (length (s_tasks s)) (s_tasks s')). fresh_task t \<and> t_force t = force)
     \<and> ks = [length (s_tasks s) ..< length (s_tasks s) + length gs]
     \<and> length (s_tasks s') = length (s_tasks s) + length gs
     \<and> take (length (s_tasks s)) (s_tasks s') = s_tasks s"
proof (induction gs arbitrary: s s' ks)
  case Nil
  then show ?case by simp
next
  case (Cons g gs)
  obtain s1 k where a: "start_form force (fst g) s = (s1, k)" by (cases "start_form force (fst g) s")
  obtain s2 ks2 where b: "start_subforms force gs s1 = (s2, ks2)" by (cases "start_subforms force gs s1")
  have eq: "s' = s2" "ks = k # ks2" using Cons.prems a b by simp_all
  obtain cs where t1: "s_tasks s1 = s_tasks s @ [\<lparr>t_form = fst g, t_force = force, t_calls = cs, t_subs = [],
                                       t_phase = AwaitFields, t_result = None\<rparr>]"
    using start_form_task[OF a] by blast
  have k: "k = length (s_tasks s)" using start_form_props[OF a] by blast
  note IH = Cons.IH[OF b]
  define X where "X = drop (length (s_tasks s1)) (s_tasks s2)"
  have pre: "s_tasks s2 = s_tasks s1 @ X"
    using IH unfolding X_def by (metis append_take_drop_id)
  have dr: "drop (length (s_tasks s)) (s_tasks s2) =
            \<lparr>t_form = fst g, t_force = force, t_calls = cs, t_subs = [], t_phase = AwaitFields, t_result = None\<rparr> # X"
    using pre t1 by simp
  have L: "length (s_tasks s1) = Suc (length (s_tasks s))" using t1 by simp
  have m: "map t_form X = map fst gs" and f: "\<forall>t \<in> set X. fresh_task t \<and> t_force t = force"
    and ks2: "ks2 = [Suc (length (s_tasks s)) ..< Suc (length (s_tasks s)) + length gs]"
    and len: "length (s_tasks s2) = Suc (length (s_tasks s)) + length gs"
    using IH[folded X_def] unfolding L by (simp_all del: upt_Suc)
  have "map t_form (drop (length (s_tasks s)) (s_tasks s')) = map fst (g # gs)" using eq dr m by simp
  moreover have "\<forall>t \<in> set (drop (length (s_tasks s)) (s_tasks s')). fresh_task t \<and> t_force t = force"
    using eq dr f by (simp add: fresh_task_def)
  moreover have "ks = [length (s_tasks s) ..< length (s_tasks s) + length (g # gs)]"
    using eq k ks2 by (simp add: upt_conv_Cons del: upt_Suc)
  moreover have "length (s_tasks s') = length (s_tasks s) + length (g # gs)" using eq len by simp
  moreover have "take (length (s_tasks s)) (s_tasks s') = s_tasks s" using eq pre t1 by simp
  ultimately show ?case by blast
qed

subsection \<open>Fields keep what their steps keep\<close>

lemma fields_keep_refl [simp]: "fields_keep P s s"
  by (auto simp: fields_keep_def)

lemma fields_keep_trans: "fields_keep P s1 s2 \<Longrightarrow> fields_keep P s2 s3 \<Longrightarrow> fields_keep P s1 s3"
  unfolding fields_keep_def by blast

lemma fields_keep_same_fields: "s_fields s' = s_fields s \<Longrightarrow> fields_keep P s s'"
  by (simp add: fields_keep_def)

lemma fields_keep_step:
  assumes "\<And>w. P w \<Longrightarrow> P (validation_step w e)" and "s_fields s c = Some v"
  shows "fields_keep P s (s\<lparr>s_fields := (s_fields s)(c \<mapsto> validation_step v e)\<rparr>)"
  using assms unfolding fields_keep_def by auto

lemma call_fields_keep:
  assumes cl: "\<And>w e. P w \<Longrightarrow> P (validation_step w e)"
  shows "call_fields force xs s = (s', cs) \<Longrightarrow> fields_keep P s s'"
proof (induction xs arbitrary: s s' cs)
  case Nil
  then show ?case by simp
next
  case (Cons c xs)
  show ?case
  proof (cases "s_fields s c")
    case None
    with Cons show ?thesis by simp
  next
    case (Some v)
    let ?s1 = "s\<lparr>s_fields := (s_fields s)(c \<mapsto> validate force v)\<rparr>"
    obtain s2 cs2 where r: "call_fields force xs ?s1 = (s2, cs2)" by (cases "call_fields force xs ?s1")
    with Cons.prems Some have "s' = s2" by (simp add: Let_def)
    moreover have "fields_keep P s ?s1"
      using fields_keep_step[of P "Validate force", OF cl Some] by simp
    ultimately show ?thesis using Cons.IH[OF r] by (blast intro: fields_keep_trans)
  qed
qed

lemma start_form_keep:
  assumes "\<And>w e. P w \<Longrightarrow> P (validation_step w e)"
  shows "fields_keep P s (fst (start_form force f s))"
proof -
  let ?els = "case d_forms (s_dom s) f of Some fm \<Rightarrow> f_elements fm | None \<Rightarrow> []"
  obtain s1 cs where c: "call_fields force (getElements (s_prop s) ?els) s = (s1, cs)"
    by (cases "call_fields force (getElements (s_prop s) ?els) s")
  have "fields_keep P s s1" by (rule call_fields_keep[of P, OF assms c])
  then show ?thesis using c by (simp add: start_form_def fields_keep_def)
qed

lemma start_subforms_keep:
  assumes "\<And>w e. P w \<Longrightarrow> P (validation_step w e)"
  shows "start_subforms force gs s = (s', ks) \<Longrightarrow> fields_keep P s s'"
proof (induction gs arbitrary: s s' ks)
  case Nil
  then show ?case by simp
next
  case (Cons g gs)
  obtain s1 k where a: "start_form force (fst g) s = (s1, k)" by (cases "start_form force (fst g) s")
  obtain s2 ks2 where b: "start_subforms force gs s1 = (s2, ks2)" by (cases "start_subforms force gs s1")
  have "s' = s2" using Cons.prems a b by simp
  moreover have "fields_keep P s s1" using start_form_keep[of P, OF assms, of s force "fst g"] a by simp
  ultimately show ?case using Cons.IH[OF b] by (blast intro: fields_keep_trans)
qed

lemma sys_step_keep:
  assumes cl: "\<And>w e. P w \<Longrightarrow> P (validation_step w e)"
  shows "fields_keep P s (sys_step s e)"
proof (cases e)
  case (FormValidate f force)
  then show ?thesis using start_form_keep[of P, OF cl] by simp
next
  case (FieldEvent c ev)
  then show ?thesis using fields_keep_step[of P ev, OF cl] by (cases "s_fields s c") simp_all
next
  case (FieldsDone i)
  show ?thesis
  proof (cases rule: fields_done_cases[of i s])
    case (start subs s' ts)
    then show ?thesis using FieldsDone start_subforms_keep[of P, OF cl start(5)]
      by (auto simp: fields_keep_def)
  qed (use FieldsDone in \<open>simp_all add: fields_keep_same_fields\<close>)
next
  case (SubsDone i)
  show ?thesis
  proof (cases rule: subs_done_cases[of i s])
    case (finished r ev)
    then show ?thesis using SubsDone by (simp add: fields_keep_same_fields)
  qed (use SubsDone in simp)
qed

lemma sys_run_keep:
  assumes "\<And>w e. P w \<Longrightarrow> P (validation_step w e)"
  shows "fields_keep P s (sys_run s es)"
  by (induction es arbitrary: s) (simp, metis sys_run.simps(2) fields_keep_trans sys_step_keep[of P, OF assms])

subsection \<open>Properties\<close>

text \<open>
  C22.  From a state with no form validation pending, along every schedule
  of steps, a \<open>Form.validate()\<close> call that has resolved resolved with
  whether all its field calls resolved \<open>true\<close> and all its sub-form calls
  resolved \<open>true\<close>.
\<close>

theorem form_validate_result:
  assumes "s_tasks s = []" and "j < length (s_tasks (sys_run s es))"
    and "t_result (s_tasks (sys_run s es) ! j) = Some b"
  shows "b = (list_all (\<lambda>ck. call_outcome (sys_run s es) ck = Some (Resolved True)) (t_calls (s_tasks (sys_run s es) ! j))
              \<and> list_all (\<lambda>k. k < length (s_tasks (sys_run s es)) \<and> t_result (s_tasks (sys_run s es) ! k) = Some True)
                   (t_subs (s_tasks (sys_run s es) ! j)))"
proof -
  let ?s = "sys_run s es"
  have "task_inv ?s (s_tasks ?s ! j)"
    using sys_run_inv[OF sys_inv_init[OF assms(1)]] assms(2) by (rule sys_inv_nth)
  then show ?thesis using assms(3)
    by (cases "t_phase (s_tasks ?s ! j)")
       (simp_all add: task_inv_def calls_true_def subs_true_def list_all_iff)
qed

theorem form_validate_result_witness:
  "s_tasks ex_sys = [] \<and> 0 < length (s_tasks (sys_run ex_sys ex_schedule))
   \<and> t_result (s_tasks (sys_run ex_sys ex_schedule) ! 0) = Some False
   \<and> \<not> (list_all (\<lambda>ck. call_outcome (sys_run ex_sys ex_schedule) ck = Some (Resolved True)) (t_calls (s_tasks (sys_run ex_sys ex_schedule) ! 0))
        \<and> list_all (\<lambda>k. k < length (s_tasks (sys_run ex_sys ex_schedule)) \<and> t_result (s_tasks (sys_run ex_sys ex_schedule) ! k) = Some True)
             (t_subs (s_tasks (sys_run ex_sys ex_schedule) ! 0)))"
proof -
  have h1: "s_tasks ex_sys = []" by (simp add: ex_sys_def)
  have h2: "0 < length (s_tasks (sys_run ex_sys ex_schedule))" by (simp add: ex_sys_run)
  have h3: "t_result (s_tasks (sys_run ex_sys ex_schedule) ! 0) = Some False" by (simp add: ex_sys_run)
  show ?thesis using h1 h2 h3 form_validate_result[OF h1 h2 h3] by simp
qed

text \<open>
  C23.  When the field calls of a \<open>Form.validate()\<close> task have resolved,
  its resumption starts one new \<open>validate(force)\<close> task for every form
  \<open>getSubForm\<close> returned, in that order, and waits for exactly those
  tasks.  With C13 (\<open>getSubForm\<close> returns every form with this form
  anywhere on its parent chain) a form nested \<open>n\<close> levels deep is
  validated once by each of its \<open>n\<close> enclosing forms.
\<close>

theorem fields_done_starts_subforms:
  assumes i: "i < length (s_tasks s)" and ph: "t_phase (s_tasks s ! i) = AwaitFields"
    and res: "calls_resolved s (s_tasks s ! i)"
    and fm: "d_forms (s_dom s) (t_form (s_tasks s ! i)) = Some fm"
    and subs: "getSubForm (s_dom s) (t_form (s_tasks s ! i)) fm = Some subs"
  shows "let s' = fields_done i s; n = length (s_tasks s)
         in map t_form (drop n (s_tasks s')) = map fst subs
            \<and> (\<forall>t \<in> set (drop n (s_tasks s')). fresh_task t \<and> t_force t = t_force (s_tasks s ! i))
            \<and> t_subs (s_tasks s' ! i) = [n ..< n + length subs]
            \<and> t_phase (s_tasks s' ! i) = AwaitSubs (calls_true s (s_tasks s ! i))"
proof -
  let ?t = "s_tasks s ! i"
  obtain s2 ts where st: "start_subforms (t_force ?t) subs s = (s2, ts)"
    by (cases "start_subforms (t_force ?t) subs s")
  note T = start_subforms_tasks[OF st]
  have nn: "None \<notin> set (outs_of s i)" and nr: "\<not> (\<exists>e. Some (Rejected e) \<in> set (outs_of s i))"
    using res by (auto simp: calls_resolved_def)
  have r: "(\<forall>x \<in> set (outs_of s i). x = Some (Resolved True)) = calls_true s ?t"
    by (auto simp: calls_true_def)
  have fd: "fields_done i s = set_task i (\<lambda>t. t\<lparr>t_subs := ts, t_phase := AwaitSubs (calls_true s ?t)\<rparr>) s2"
    using i ph nn nr fm subs st r by (simp add: fields_done_def Let_def)
  have i2: "i < length (s_tasks s2)" using i T by simp
  have ti: "s_tasks s2 ! i = ?t" using i T by (metis nth_take)
  show ?thesis
    unfolding fd Let_def using T i i2 ti by (simp add: drop_update_cancel)
qed

text \<open>
  C36.  A form without descendant forms whose field calls have all
  resolved finishes: the two resumptions of its \<open>Form.validate()\<close> task
  (after the fields' \<open>Promise.all\<close>, then after the empty sub-form
  \<open>Promise.all\<close>) resolve it with whether every field call resolved
  \<open>true\<close>.
\<close>

theorem form_validate_completes:
  assumes i: "i < length (s_tasks s)" and ph: "t_phase (s_tasks s ! i) = AwaitFields"
    and res: "\<forall>ck \<in> set (t_calls (s_tasks s ! i)). \<exists>b. call_outcome s ck = Some (Resolved b)"
    and fm: "d_forms (s_dom s) (t_form (s_tasks s ! i)) = Some fm" and leaf: "f_descendants fm = []"
  shows "t_result (s_tasks (sys_run s [FieldsDone i, SubsDone i]) ! i) = Some (calls_true s (s_tasks s ! i))"
proof -
  let ?t = "s_tasks s ! i"
  let ?s1 = "set_task i (\<lambda>t. t\<lparr>t_subs := [], t_phase := AwaitSubs (calls_true s ?t)\<rparr>) s"
  have nn: "None \<notin> set (outs_of s i)" and nr: "\<not> (\<exists>e. Some (Rejected e) \<in> set (outs_of s i))"
    using res by fastforce+
  have r: "(\<forall>x \<in> set (outs_of s i). x = Some (Resolved True)) = calls_true s ?t"
    by (auto simp: calls_true_def)
  have "fields_done i s = ?s1"
    using i ph nn nr fm leaf r by (simp add: fields_done_def getSubForm_def Let_def)
  moreover have "t_result (s_tasks (subs_done i ?s1) ! i) = Some (calls_true s ?t)"
    using i by (simp add: subs_done_def Let_def dispatchFormValidation_def)
  ultimately show ?thesis by simp
qed

theorem fields_done_starts_subforms_witness:
  "map t_form (drop 1 (s_tasks (fields_done 0 (sys_run ex_sys [FormValidate 0 False, FieldEvent 0 Fire])))) = [1, 2]
   \<and> t_subs (s_tasks (fields_done 0 (sys_run ex_sys [FormValidate 0 False, FieldEvent 0 Fire])) ! 0) = [1, 2]"
proof -
  define s where "s = sys_run ex_sys [FormValidate 0 False, FieldEvent 0 Fire]"
  define fm where "fm = \<lparr>f_name = ''form'', f_elements = [ex_vel ''a'' 0], f_descendants = [Some 1, Some 2]\<rparr>"
  define subs where "subs = [(1::nat, \<lparr>f_name = ''child'', f_elements = [ex_vel ''b'' 1], f_descendants = [Some 2]\<rparr>),
                        (2, \<lparr>f_name = ''grandchild'', f_elements = [ex_vel ''c'' 2], f_descendants = []\<rparr>)]"
  have st: "s_tasks s = [\<lparr>t_form = 0, t_force = False, t_calls = [(0, 0)], t_subs = [], t_phase = AwaitFields, t_result = None\<rparr>]"
    and oc: "call_outcome s (0, 0) = Some (Resolved True)"
    and dm: "s_dom s = s_dom ex_sys"
    by (simp_all add: s_def ex_sys_run)
  have h1: "0 < length (s_tasks s)" and h2: "t_phase (s_tasks s ! 0) = AwaitFields" using st by simp_all
  have h3: "calls_resolved s (s_tasks s ! 0)" using st oc unfolding calls_resolved_def by fastforce
  have h4: "d_forms (s_dom s) (t_form (s_tasks s ! 0)) = Some fm" using st dm by (simp add: fm_def ex_sys_def)
  have h5: "getSubForm (s_dom s) (t_form (s_tasks s ! 0)) fm = Some subs"
    using st dm by (simp add: fm_def subs_def ex_sys_def form_ops)
  show ?thesis
    using fields_done_starts_subforms[OF h1 h2 h3 h4 h5] st unfolding s_def[symmetric]
    by (simp add: Let_def subs_def numeral_2_eq_2)
qed

theorem form_validate_completes_witness:
  "t_result (s_tasks (sys_run (sys_run ex_sys [FormValidate 2 False, FieldEvent 2 Fire]) [FieldsDone 0, SubsDone 0]) ! 0)
     = Some True"
proof -
  define s where "s = sys_run ex_sys [FormValidate 2 False, FieldEvent 2 Fire]"
  have st: "s_tasks s = [\<lparr>t_form = 2, t_force = False, t_calls = [(2, 0)], t_subs = [], t_phase = AwaitFields, t_result = None\<rparr>]"
    and oc: "call_outcome s (2, 0) = Some (Resolved True)"
    and fm: "d_forms (s_dom s) 2 = Some \<lparr>f_name = ''grandchild'', f_elements = [ex_vel ''c'' 2], f_descendants = []\<rparr>"
    by (simp_all add: s_def ex_sys_run)
  have h1: "0 < length (s_tasks s)" and h2: "t_phase (s_tasks s ! 0) = AwaitFields"
    and h3: "\<forall>ck \<in> set (t_calls (s_tasks s ! 0)). \<exists>b. call_outcome s ck = Some (Resolved b)"
    and h4: "d_forms (s_dom s) (t_form (s_tasks s ! 0)) = Some \<lparr>f_name = ''grandchild'', f_elements = [ex_vel ''c'' 2], f_descendants = []\<rparr>"
    using st oc fm by auto
  have "calls_true s (s_tasks s ! 0)" using st oc by (simp add: calls_true_def)
  then show ?thesis using form_validate_completes[OF h1 h2 h3 h4] unfolding s_def by simp
qed

text \<open>
  C19.  A \<open>Form.validate()\<close> call one of whose field calls went to a field
  bound to no element never resolves, along every schedule: that field
  call either stays pending, so \<open>Promise.all\<close> never settles, or is
  rejected with a \<open>TypeError\<close>, which escapes the \<open>async\<close> executor.
\<close>

theorem unbound_field_blocks_form:
  assumes "s_tasks s = []" and "s_fields s c = Some v" and "unbound_inv v"
    and "j < length (s_tasks (sys_run s es))" and "(c, k) \<in> set (t_calls (s_tasks (sys_run s es) ! j))"
  shows "t_result (s_tasks (sys_run s es) ! j) = None"
proof (rule ccontr)
  let ?s = "sys_run s es"
  let ?t = "s_tasks ?s ! j"
  assume res: "t_result ?t \<noteq> None"
  have "task_inv ?s ?t" using sys_run_inv[OF sys_inv_init[OF assms(1)]] assms(4) by (rule sys_inv_nth)
  with res have "calls_resolved ?s ?t" by (cases "t_phase ?t") (simp_all add: task_inv_def)
  with assms(5) obtain b where b: "call_outcome ?s (c, k) = Some (Resolved b)"
    unfolding calls_resolved_def by blast
  have "fields_keep unbound_inv s ?s" by (rule sys_run_keep) (rule unbound_inv_step)
  with assms(2,3) obtain v' where "s_fields ?s c = Some v'" "unbound_inv v'"
    unfolding fields_keep_def by blast
  with b show False by (auto simp: call_outcome_def unbound_inv_def ran_def)
qed

theorem unbound_field_blocks_form_witness:
  "s_tasks ex_unbound = [] \<and> s_fields ex_unbound 2 = Some (init_validation [] None) \<and> unbound_inv (init_validation [] None)
   \<and> 1 < length (s_tasks (sys_run ex_unbound ex_unbound_schedule))
   \<and> (2, 1) \<in> set (t_calls (s_tasks (sys_run ex_unbound ex_unbound_schedule) ! 1))
   \<and> t_result (s_tasks (sys_run ex_unbound ex_unbound_schedule) ! 1) = None"
proof -
  have h1: "s_tasks ex_unbound = []" and h2: "s_fields ex_unbound 2 = Some (init_validation [] None)"
    by (simp_all add: ex_unbound_def ex_sys_def)
  have h3: "unbound_inv (init_validation [] None)" by (rule init_unbound_inv)
  have h4: "1 < length (s_tasks (sys_run ex_unbound ex_unbound_schedule))"
    and h5: "(2, 1) \<in> set (t_calls (s_tasks (sys_run ex_unbound ex_unbound_schedule) ! 1))"
    by (simp_all add: ex_unbound_def ex_unbound_schedule_def ex_sys_run)
  show ?thesis using h1 h2 h3 h4 h5 unbound_field_blocks_form[OF h1 h2 h3 h4 h5] by simp
qed

end
