(* ===== verification/Config.thy ===== *)
theory Config
  imports Prelude
begin

text \<open>
  The process-wide configuration.  \<open>src/st-form.ts\<close> makes sure the
  global object has a \<open>$stForm\<close> object and fills each of its falsy fields
  from the environment or a default; \<open>src/config.ts\<close> builds a fresh
  object from the environment and stores it under the same global key;
  \<open>Validation\<close> reads the first through the binding \<open>stForm\<close>, \<open>Form\<close>
  the second through \<open>getFormConfig()\<close>.  Objects live in a heap
  (\<open>gstate\<close>) so that the two bindings can be told apart.  The two modules
  use the global object of the runtime (\<open>new Function("return this")()\<close>
  and springtype's \<open>globalThis\<close>), taken here to be the same object.
  \<open>process.env\<close> is a map from keys to strings, \<open>parseInt\<close> and
  \<open>split\<close> are written out, and JavaScript truthiness and \<open>||\<close> are
  \<open>js_truthy\<close> and \<open>js_or\<close>.
\<close>

subsection \<open>parseInt and split\<close>

type_synonym env = "string \<rightharpoonup> string"

definition js_ws :: "char \<Rightarrow> bool" where
  "js_ws c \<longleftrightarrow> of_char c \<in> {9, 10, 11, 12, 13, 32 :: nat}"

definition digit_val :: "nat \<Rightarrow> char \<Rightarrow> nat option" where
  "digit_val r c =
     (let n = (of_char c :: nat);
          d = (if 48 \<le> n \<and> n \<le> 57 then Some (n - 48)
               else if 97 \<le> n \<and> n \<le> 122 then Some (n - 87)
               else if 65 \<le> n \<and> n \<le> 90 then Some (n - 55) else None)
      in case d of Some k \<Rightarrow> if k < r then Some k else None | None \<Rightarrow> None)"

fun digits_value :: "nat \<Rightarrow> nat \<Rightarrow> string \<Rightarrow> nat" where
  "digits_value r acc [] = acc"
| "digits_value r acc (c # cs) = digits_value r (acc * r + (case digit_val r c of Some k \<Rightarrow> k | None \<Rightarrow> 0)) cs"

definition parse_sign :: "string \<Rightarrow> int \<times> string" where
  "parse_sign s =
     (case s of c # r \<Rightarrow> if c = CHR ''-'' then (-1, r) else if c = CHR ''+'' then (1, r) else (1, s)
              | [] \<Rightarrow> (1, s))"

definition parse_radix :: "string \<Rightarrow> nat \<times> string" where
  "parse_radix s = (if take 2 s = ''0x'' \<or> take 2 s = ''0X'' then (16, drop 2 s) else (10, s))"

text \<open>
  \<open>parseInt\<close> returns a double: the integer it reads is rounded to the
  nearest value with a 53-bit significand, ties to even.  Integers up to
  \<open>Number.MAX_SAFE_INTEGER = 2^53 - 1\<close> are exact.  The model has no
  \<open>Infinity\<close>, which \<open>parseInt\<close> returns above about \<open>1.8e308\<close>.
\<close>

fun bit_len :: "nat \<Rightarrow> nat" where
  "bit_len n = (if n = 0 then 0 else Suc (bit_len (n div 2)))"

definition round_double :: "int \<Rightarrow> int" where
  "round_double i =
     (let a = nat \<bar>i\<bar>; e = bit_len a - 53 in
      if e = 0 then i
      else (let q = a div 2 ^ e; r = a mod 2 ^ e; h = 2 ^ (e - 1);
                q' = (if h < r \<or> (r = h \<and> odd q) then q + 1 else q)
            in sgn i * int (q' * 2 ^ e)))"

definition parse_int :: "string \<Rightarrow> fvalue" where
  "parse_int s =
     (let (sg, s2) = parse_sign (dropWhile js_ws s);
          (rx, s3) = parse_radix s2;
          ds = takeWhile (\<lambda>c. digit_val rx c \<noteq> None) s3
      in if ds = [] then FNaN else FNum (round_double (sg * int (digits_value rx 0 ds))))"

fun split_on :: "char \<Rightarrow> string \<Rightarrow> string list" where
  "split_on d [] = [[]]"
| "split_on d (c # cs) = (if c = d then [] # split_on d cs else (let r = split_on d cs in (c # hd r) # tl r))"

fun show_nat :: "nat \<Rightarrow> string" where
  "show_nat n = (if n < 10 then [char_of (48 + n)] else show_nat (n div 10) @ [char_of (48 + n mod 10)])"

definition show_int :: "int \<Rightarrow> string" where
  "show_int i = (if i < 0 then CHR ''-'' # show_nat (nat (- i)) else show_nat (nat i))"

text \<open>Joining with a separator, the inverse of \<open>split_on\<close>.\<close>

fun join_with :: "char \<Rightarrow> string list \<Rightarrow> string" where
  "join_with d [] = []"
| "join_with d [w] = w"
| "join_with d (w # v # vs) = w @ d # join_with d (v # vs)"

subsection \<open>Truthiness and \<open>||\<close>\<close>

fun js_truthy :: "fvalue \<Rightarrow> bool" where
  "js_truthy (FBool b) = b"
| "js_truthy (FStr s) = (s \<noteq> [])"
| "js_truthy (FNum n) = (n \<noteq> 0)"
| "js_truthy FNaN = False"
| "js_truthy (FDate _) = True"
| "js_truthy FNull = False"
| "js_truthy FUndef = False"

definition js_or :: "fvalue \<Rightarrow> fvalue \<Rightarrow> fvalue" where
  "js_or a b = (if js_truthy a then a else b)"

definition env_val :: "env \<Rightarrow> string \<Rightarrow> fvalue" where
  "env_val env k = (case env k of Some s \<Rightarrow> FStr s | None \<Rightarrow> FUndef)"

subsection \<open>Reading the environment\<close>

text \<open>The environment keys, declared once in \<open>st-form.ts\<close> and again in \<open>config.ts\<close>.\<close>

definition DEFAULT_ST_FORM_LOG_DEBUG_MESSAGE_KEY :: string where
  "DEFAULT_ST_FORM_LOG_DEBUG_MESSAGE_KEY = ''ST_FORM_LOG_DEBUG_MESSAGE''"

definition DEFAULT_ST_FORM_VALIDATION_PROPERTY_NAME_KEY :: string where
  "DEFAULT_ST_FORM_VALIDATION_PROPERTY_NAME_KEY = ''ST_FORM_VALIDATION_PROPERTY_NAME''"

definition DEFAULT_ST_FORM_VALIDATION_DEBOUNCE_TIME_IN_MS_KEY :: string where
  "DEFAULT_ST_FORM_VALIDATION_DEBOUNCE_TIME_IN_MS_KEY = ''ST_FORM_VALIDATION_DEBOUNCE_TIME_IN_MS''"

definition DEFAULT_ST_FORM_VALIDATION_EVENT_LISTENER_KEY :: string where
  "DEFAULT_ST_FORM_VALIDATION_EVENT_LISTENER_KEY = ''ST_FORM_VALIDATION_EVENT_LISTENER''"

definition config_DEFAULT_ST_FORM_LOG_DEBUG_MESSAGE_KEY :: string where
  "config_DEFAULT_ST_FORM_LOG_DEBUG_MESSAGE_KEY = ''ST_FORM_LOG_DEBUG_MESSAGE''"

definition config_DEFAULT_ST_FORM_VALIDATION_PROPERTY_NAME_KEY :: string where
  "config_DEFAULT_ST_FORM_VALIDATION_PROPERTY_NAME_KEY = ''ST_FORM_VALIDATION_PROPERTY_NAME''"

definition config_DEFAULT_ST_FORM_VALIDATION_DEBOUNCE_TIME_IN_MS_KEY :: string where
  "config_DEFAULT_ST_FORM_VALIDATION_DEBOUNCE_TIME_IN_MS_KEY = ''ST_FORM_VALIDATION_DEBOUNCE_TIME_IN_MS''"

definition config_DEFAULT_ST_FORM_VALIDATION_EVENT_LISTENER_KEY :: string where
  "config_DEFAULT_ST_FORM_VALIDATION_EVENT_LISTENER_KEY = ''ST_FORM_VALIDATION_EVENT_LISTENER''"

definition getValidationEventListenerFromEnv :: "env \<Rightarrow> string list option" where
  "getValidationEventListenerFromEnv env =
     (case env DEFAULT_ST_FORM_VALIDATION_EVENT_LISTENER_KEY of
        Some s \<Rightarrow> if s \<noteq> [] then Some (split_on CHR ''|'' s) else None
      | None \<Rightarrow> None)"

definition getLogDebugFromEnv :: "env \<Rightarrow> bool" where
  "getLogDebugFromEnv env = (env DEFAULT_ST_FORM_LOG_DEBUG_MESSAGE_KEY = Some ''true'')"

definition getValidationDebounceTimeInMsFromEnv :: "env \<Rightarrow> fvalue" where
  "getValidationDebounceTimeInMsFromEnv env =
     (case env DEFAULT_ST_FORM_VALIDATION_DEBOUNCE_TIME_IN_MS_KEY of
        Some s \<Rightarrow> if s \<noteq> [] then parse_int s else FUndef
      | None \<Rightarrow> FUndef)"

definition default_listeners :: "env \<Rightarrow> string list" where
  "default_listeners env =
     (case getValidationEventListenerFromEnv env of Some l \<Rightarrow> l | None \<Rightarrow> [''change'', ''keyup''])"

text \<open>
  \<open>config.ts\<close> repeats the three readers of \<open>st-form.ts\<close> (one under the
  name \<open>getValidationDebunceTimeInMsFromEnv\<close>).
\<close>

definition config_getValidationEventListenerFromEnv :: "env \<Rightarrow> string list option" where
  "config_getValidationEventListenerFromEnv env =
     (case env config_DEFAULT_ST_FORM_VALIDATION_EVENT_LISTENER_KEY of
        Some s \<Rightarrow> if s \<noteq> [] then Some (split_on CHR ''|'' s) else None
      | None \<Rightarrow> None)"

definition config_getLogDebugFromEnv :: "env \<Rightarrow> bool" where
  "config_getLogDebugFromEnv env = (env config_DEFAULT_ST_FORM_LOG_DEBUG_MESSAGE_KEY = Some ''true'')"

definition getValidationDebunceTimeInMsFromEnv :: "env \<Rightarrow> fvalue" where
  "getValidationDebunceTimeInMsFromEnv env =
     (case env config_DEFAULT_ST_FORM_VALIDATION_DEBOUNCE_TIME_IN_MS_KEY of
        Some s \<Rightarrow> if s \<noteq> [] then parse_int s else FUndef
      | None \<Rightarrow> FUndef)"

subsection \<open>Configuration objects and the global object\<close>

record cfg =
  cfg_globalThis :: bool
  cfg_logDebugMessages :: fvalue
  cfg_validatorName :: fvalue
  cfg_validationPropertyName :: fvalue
  cfg_validationDebounceTimeInMs :: fvalue
  cfg_validationEventListener :: "string list option"

definition empty_cfg :: cfg where
  "empty_cfg = \<lparr>cfg_globalThis = False, cfg_logDebugMessages = FUndef, cfg_validatorName = FUndef,
     cfg_validationPropertyName = FUndef, cfg_validationDebounceTimeInMs = FUndef,
     cfg_validationEventListener = None\<rparr>"

record gstate =
  g_heap :: "obj_id \<rightharpoonup> cfg"
  g_next :: obj_id
  g_slot :: "obj_id option"
  g_stForm :: "obj_id option"

definition alloc_cfg :: "cfg \<Rightarrow> gstate \<Rightarrow> gstate \<times> obj_id" where
  "alloc_cfg c g = (g\<lparr>g_heap := (g_heap g)(g_next g \<mapsto> c), g_next := Suc (g_next g)\<rparr>, g_next g)"

text \<open>One \<open>if (!stForm.x) stForm.x = ...\<close> of \<open>st-form.ts\<close> per field.\<close>

definition init_globalThis :: "cfg \<Rightarrow> cfg" where
  "init_globalThis c = (if \<not> cfg_globalThis c then c\<lparr>cfg_globalThis := True\<rparr> else c)"

definition init_logDebugMessages :: "env \<Rightarrow> cfg \<Rightarrow> cfg" where
  "init_logDebugMessages env c =
     (if \<not> js_truthy (cfg_logDebugMessages c)
      then c\<lparr>cfg_logDebugMessages := js_or (FBool (getLogDebugFromEnv env)) (FBool False)\<rparr> else c)"

definition init_validatorName :: "cfg \<Rightarrow> cfg" where
  "init_validatorName c =
     (if \<not> js_truthy (cfg_validatorName c) then c\<lparr>cfg_validatorName := FStr ''VALIDATOR_NAME''\<rparr> else c)"

definition init_validationPropertyName :: "env \<Rightarrow> cfg \<Rightarrow> cfg" where
  "init_validationPropertyName env c =
     (if \<not> js_truthy (cfg_validationPropertyName c)
      then c\<lparr>cfg_validationPropertyName := js_or (env_val env DEFAULT_ST_FORM_VALIDATION_PROPERTY_NAME_KEY) (FStr ''VALIDATION'')\<rparr>
      else c)"

definition init_validationDebounceTimeInMs :: "env \<Rightarrow> cfg \<Rightarrow> cfg" where
  "init_validationDebounceTimeInMs env c =
     (if \<not> js_truthy (cfg_validationDebounceTimeInMs c)
      then c\<lparr>cfg_validationDebounceTimeInMs := js_or (getValidationDebounceTimeInMsFromEnv env) (FNum 250)\<rparr>
      else c)"

definition init_validationEventListener :: "env \<Rightarrow> cfg \<Rightarrow> cfg" where
  "init_validationEventListener env c =
     (if cfg_validationEventListener c = None
      then c\<lparr>cfg_validationEventListener := Some (default_listeners env)\<rparr> else c)"

definition init_fields :: "env \<Rightarrow> cfg \<Rightarrow> cfg" where
  "init_fields env =
     init_validationEventListener env \<circ> init_validationDebounceTimeInMs env \<circ> init_validationPropertyName env
     \<circ> init_validatorName \<circ> init_logDebugMessages env \<circ> init_globalThis"

definition st_form_module :: "env \<Rightarrow> gstate \<Rightarrow> gstate" where
  "st_form_module env g =
     (let (g1, ob) = (case g_slot g of None \<Rightarrow> (let (g', a) = alloc_cfg empty_cfg g in (g'\<lparr>g_slot := Some a\<rparr>, a))
                                    | Some a \<Rightarrow> (g, a))
      in g1\<lparr>g_stForm := Some ob, g_heap := (g_heap g1)(ob := map_option (init_fields env) (g_heap g1 ob))\<rparr>)"

definition defaultFormConfig :: "env \<Rightarrow> cfg" where
  "defaultFormConfig env =
     empty_cfg\<lparr>cfg_logDebugMessages := js_or (FBool (config_getLogDebugFromEnv env)) (FBool False),
       cfg_validationPropertyName := js_or (env_val env config_DEFAULT_ST_FORM_VALIDATION_PROPERTY_NAME_KEY) (FStr ''VALIDATION''),
       cfg_validationDebounceTimeInMs := js_or (getValidationDebunceTimeInMsFromEnv env) (FNum 250),
       cfg_validationEventListener :=
         Some (case config_getValidationEventListenerFromEnv env of Some l \<Rightarrow> l | None \<Rightarrow> [''change'', ''keyup''])\<rparr>"

definition config_module :: "env \<Rightarrow> gstate \<Rightarrow> gstate" where
  "config_module env g = (let (g1, a) = alloc_cfg (defaultFormConfig env) g in g1\<lparr>g_slot := Some a\<rparr>)"

definition getFormConfig :: "gstate \<Rightarrow> cfg option" where
  "getFormConfig g = (case g_slot g of Some a \<Rightarrow> g_heap g a | None \<Rightarrow> None)"

definition stForm :: "gstate \<Rightarrow> cfg option" where
  "stForm g = (case g_stForm g of Some a \<Rightarrow> g_heap g a | None \<Rightarrow> None)"

definition cfg_wf :: "gstate \<Rightarrow> bool" where
  "cfg_wf g \<longleftrightarrow> dom (g_heap g) \<subseteq> {..<g_next g} \<and> set_option (g_stForm g) \<subseteq> dom (g_heap g)"

subsection \<open>Examples\<close>

text \<open>A page that set \<open>window.$stForm = {validationPropertyName: 'X'}\<close> before loading.\<close>

definition ex_global :: gstate where
  "ex_global = \<lparr>g_heap = [0 \<mapsto> empty_cfg\<lparr>cfg_validationPropertyName := FStr ''X''\<rparr>], g_next = 1,
                 g_slot = Some 0, g_stForm = None\<rparr>"

definition fresh_global :: gstate where
  "fresh_global = \<lparr>g_heap = Map.empty, g_next = 0, g_slot = None, g_stForm = None\<rparr>"

lemmas config_examples = ex_global_def fresh_global_def empty_cfg_def

declare show_nat.simps [simp del] bit_len.simps [simp del]
declare DEFAULT_ST_FORM_LOG_DEBUG_MESSAGE_KEY_def [simp]
  config_DEFAULT_ST_FORM_LOG_DEBUG_MESSAGE_KEY_def [simp]
  DEFAULT_ST_FORM_VALIDATION_PROPERTY_NAME_KEY_def [simp]
  config_DEFAULT_ST_FORM_VALIDATION_PROPERTY_NAME_KEY_def [simp]
  DEFAULT_ST_FORM_VALIDATION_DEBOUNCE_TIME_IN_MS_KEY_def [simp]
  config_DEFAULT_ST_FORM_VALIDATION_DEBOUNCE_TIME_IN_MS_KEY_def [simp]
  DEFAULT_ST_FORM_VALIDATION_EVENT_LISTENER_KEY_def [simp]
  config_DEFAULT_ST_FORM_VALIDATION_EVENT_LISTENER_KEY_def [simp]

lemma digit_val_dec: "k < 10 \<Longrightarrow> digit_val 10 (char_of (48 + k)) = Some k"
  by (simp add: digit_val_def Let_def of_char_of)

lemma show_nat_digits: "\<forall>c \<in> set (show_nat n). digit_val 10 c \<noteq> None"
  by (induction n rule: show_nat.induct) (subst show_nat.simps, auto simp: digit_val_dec)

lemma digits_value_append: "digits_value r acc (xs @ ys) = digits_value r (digits_value r acc xs) ys"
  by (induction xs arbitrary: acc) simp_all

lemma digits_value_show_nat: "digits_value 10 0 (show_nat n) = n"
proof (induction n rule: show_nat.induct)
  case (1 n)
  show ?case
  proof (cases "n < 10")
    case True
    then show ?thesis by (subst show_nat.simps) (simp add: digit_val_dec)
  next
    case False
    then have "digits_value 10 0 (show_nat n) = n div 10 * 10 + n mod 10"
      using 1 by (subst show_nat.simps) (simp add: digits_value_append digit_val_dec)
    then show ?thesis by simp
  qed
qed

lemma digit_val_dec_range: "digit_val 10 c \<noteq> None \<Longrightarrow> 48 \<le> (of_char c :: nat) \<and> (of_char c :: nat) \<le> 57"
  by (auto simp: digit_val_def Let_def split: if_splits)

lemma digit_not_special:
  assumes "digit_val 10 c \<noteq> None"
  shows "\<not> js_ws c" "c \<noteq> CHR ''-''" "c \<noteq> CHR ''+''" "c \<noteq> CHR ''x''" "c \<noteq> CHR ''X''"
  using digit_val_dec_range[OF assms] by (auto simp: js_ws_def)

lemma show_nat_nonempty: "show_nat n \<noteq> []"
  by (subst show_nat.simps) simp

lemma takeWhile_show_nat: "takeWhile (\<lambda>c. \<exists>k. digit_val 10 c = Some k) (show_nat n) = show_nat n"
  using show_nat_digits[of n] by (simp add: takeWhile_eq_all_conv)

lemma show_nat_no_hex: "take 2 (show_nat n) \<noteq> ''0x'' \<and> take 2 (show_nat n) \<noteq> ''0X''"
proof -
  have "digit_val 10 (CHR ''x'') = None" "digit_val 10 (CHR ''X'') = None"
    by (simp_all add: digit_val_def Let_def)
  then have "CHR ''x'' \<notin> set (show_nat n)" "CHR ''X'' \<notin> set (show_nat n)"
    using show_nat_digits[of n] by blast+
  moreover have "CHR ''x'' \<in> set ''0x''" "CHR ''X'' \<in> set ''0X''" by simp_all
  ultimately show ?thesis using set_take_subset[of 2 "show_nat n"] by (metis subsetD)
qed

lemma show_nat_prefix:
  "dropWhile js_ws (show_nat n) = show_nat n \<and> parse_sign (show_nat n) = (1, show_nat n)
   \<and> parse_radix (show_nat n) = (10, show_nat n)"
proof -
  obtain c cs where sn: "show_nat n = c # cs" using show_nat_nonempty by (cases "show_nat n") auto
  have dc: "digit_val 10 c \<noteq> None" using show_nat_digits[of n] sn by simp
  show ?thesis
    using sn digit_not_special[OF dc] show_nat_no_hex[of n] by (simp add: parse_sign_def parse_radix_def)
qed

lemma bit_len_le: "n < 2 ^ k \<Longrightarrow> bit_len n \<le> k"
proof (induction n arbitrary: k rule: bit_len.induct)
  case (1 n)
  show ?case
  proof (cases "n = 0")
    case False
    then obtain k' where k: "k = Suc k'" using "1.prems" by (cases k) auto
    have "n div 2 < 2 ^ k'" using "1.prems" k by simp
    with "1.IH"[OF False] False k show ?thesis by (simp add: bit_len.simps[of n])
  qed (simp add: bit_len.simps)
qed

lemma round_double_safe: "\<bar>i\<bar> < 2 ^ 53 \<Longrightarrow> round_double i = i"
proof -
  assume "\<bar>i\<bar> < 2 ^ 53"
  then have "nat \<bar>i\<bar> < 2 ^ 53" by (simp add: nat_less_iff)
  then have "bit_len (nat \<bar>i\<bar>) \<le> 53" by (rule bit_len_le)
  then show ?thesis by (simp add: round_double_def Let_def)
qed

lemma parse_int_dec:
  assumes "dropWhile js_ws s = s1" and "parse_sign s1 = (sg, s2)" and "parse_radix s2 = (10, s2)"
    and "\<forall>c \<in> set s2. digit_val 10 c \<noteq> None" and "s2 \<noteq> []"
  shows "parse_int s = FNum (round_double (sg * int (digits_value 10 0 s2)))"
proof -
  have tw: "takeWhile (\<lambda>c. digit_val 10 c \<noteq> None) s2 = s2"
    using assms(4) by (simp only: takeWhile_eq_all_conv)
  show ?thesis using assms(5) unfolding parse_int_def assms(1) assms(2) Let_def prod.case assms(3) tw by simp
qed

lemma parse_show_int: "parse_int (show_int i) = FNum (round_double i)"
proof (cases "i < 0")
  case True
  have ws: "dropWhile js_ws (show_int i) = CHR ''-'' # show_nat (nat (- i))"
    using True by (simp add: show_int_def js_ws_def)
  have sg: "parse_sign (CHR ''-'' # show_nat (nat (- i))) = (-1, show_nat (nat (- i)))"
    by (simp add: parse_sign_def)
  have "parse_int (show_int i) = FNum (round_double (-1 * int (digits_value 10 0 (show_nat (nat (- i))))))"
    using show_nat_prefix[of "nat (- i)"] show_nat_digits show_nat_nonempty by (intro parse_int_dec[OF ws sg]) auto
  then show ?thesis using True by (simp add: digits_value_show_nat)
next
  case False
  then have "show_int i = show_nat (nat i)" by (simp add: show_int_def)
  then have "parse_int (show_int i) = FNum (round_double (1 * int (digits_value 10 0 (show_nat (nat i)))))"
    using show_nat_prefix[of "nat i"] show_nat_digits show_nat_nonempty by (intro parse_int_dec) auto
  then show ?thesis using False by (simp add: digits_value_show_nat)
qed

lemma split_on_nonempty [simp]: "split_on d s \<noteq> []"
  by (induction s) (simp_all add: Let_def)

lemma split_on_length: "length (split_on d s) = Suc (count_list s d)"
  by (induction s) (simp_all add: Let_def)

lemma split_on_join:
  "ws \<noteq> [] \<Longrightarrow> \<forall>w \<in> set ws. d \<notin> set w \<Longrightarrow> split_on d (join_with d ws) = ws"
proof (induction ws rule: induct_list012)
  case (2 w)
  then have "d \<notin> set w" by simp
  then show ?case by (induction w) (auto simp: Let_def)
next
  case (3 w v vs)
  have "split_on d (w @ d # u) = w # split_on d u" if "d \<notin> set w" for u
    using that by (induction w) (auto simp: Let_def)
  then show ?case using 3 by simp
qed simp

lemma init_fields_sel [simp]:
  "cfg_globalThis (init_fields env c) = True"
  "cfg_logDebugMessages (init_fields env c) =
     (if js_truthy (cfg_logDebugMessages c) then cfg_logDebugMessages c
      else js_or (FBool (getLogDebugFromEnv env)) (FBool False))"
  "cfg_validatorName (init_fields env c) =
     (if js_truthy (cfg_validatorName c) then cfg_validatorName c else FStr ''VALIDATOR_NAME'')"
  "cfg_validationPropertyName (init_fields env c) =
     (if js_truthy (cfg_validationPropertyName c) then cfg_validationPropertyName c
      else js_or (env_val env ''ST_FORM_VALIDATION_PROPERTY_NAME'') (FStr ''VALIDATION''))"
  "cfg_validationDebounceTimeInMs (init_fields env c) =
     (if js_truthy (cfg_validationDebounceTimeInMs c) then cfg_validationDebounceTimeInMs c
      else js_or (getValidationDebounceTimeInMsFromEnv env) (FNum 250))"
  "cfg_validationEventListener (init_fields env c) =
     (case cfg_validationEventListener c of None \<Rightarrow> Some (default_listeners env) | Some l \<Rightarrow> Some l)"
  "cfg.more (init_fields env c) = cfg.more c"
  by (simp_all add: init_fields_def init_globalThis_def init_logDebugMessages_def init_validatorName_def
      init_validationPropertyName_def init_validationDebounceTimeInMs_def init_validationEventListener_def
      split: option.split)

lemma init_fields_idem: "init_fields env (init_fields env c) = init_fields env c"
  by (rule cfg.equality) (simp_all add: js_or_def split: option.split)

lemma config_readers_eq [simp]:
  "config_getValidationEventListenerFromEnv = getValidationEventListenerFromEnv"
  "config_getLogDebugFromEnv = getLogDebugFromEnv"
  "getValidationDebunceTimeInMsFromEnv = getValidationDebounceTimeInMsFromEnv"
  by (simp_all add: fun_eq_iff config_getValidationEventListenerFromEnv_def getValidationEventListenerFromEnv_def
      config_getLogDebugFromEnv_def getLogDebugFromEnv_def getValidationDebunceTimeInMsFromEnv_def
      getValidationDebounceTimeInMsFromEnv_def)

lemma defaultFormConfig_readers:
  "defaultFormConfig env =
     empty_cfg\<lparr>cfg_logDebugMessages := js_or (FBool (getLogDebugFromEnv env)) (FBool False),
       cfg_validationPropertyName := js_or (env_val env ''ST_FORM_VALIDATION_PROPERTY_NAME'') (FStr ''VALIDATION''),
       cfg_validationDebounceTimeInMs := js_or (getValidationDebounceTimeInMsFromEnv env) (FNum 250),
       cfg_validationEventListener := Some (default_listeners env)\<rparr>"
  by (simp add: defaultFormConfig_def default_listeners_def)

lemma st_form_module_Some:
  "g_slot g = Some a \<Longrightarrow>
     st_form_module env g = g\<lparr>g_stForm := Some a, g_heap := (g_heap g)(a := map_option (init_fields env) (g_heap g a))\<rparr>"
  by (simp add: st_form_module_def)

lemma st_form_module_None:
  "g_slot g = None \<Longrightarrow>
     st_form_module env g = g\<lparr>g_heap := (g_heap g)(g_next g \<mapsto> init_fields env empty_cfg), g_next := Suc (g_next g),
                               g_slot := Some (g_next g), g_stForm := Some (g_next g)\<rparr>"
  by (simp add: st_form_module_def alloc_cfg_def)

lemma st_form_module_slot: "\<exists>a. g_slot (st_form_module env g) = Some a \<and> g_stForm (st_form_module env g) = Some a"
  by (cases "g_slot g") (simp_all add: st_form_module_Some st_form_module_None)

lemma stForm_st_form_module:
  "g_slot g = Some a \<Longrightarrow> stForm (st_form_module env g) = map_option (init_fields env) (g_heap g a)"
  by (simp add: st_form_module_Some stForm_def)

lemma config_module_sel:
  assumes "cfg_wf g"
  shows "stForm (config_module env g) = stForm g \<and> getFormConfig (config_module env g) = Some (defaultFormConfig env)"
proof -
  have "g_next g \<notin> dom (g_heap g)" using assms by (auto simp: cfg_wf_def)
  moreover have "set_option (g_stForm g) \<subseteq> dom (g_heap g)" using assms by (simp add: cfg_wf_def)
  ultimately have "g_stForm g \<noteq> Some (g_next g)" by auto
  then show ?thesis by (auto simp: config_module_def alloc_cfg_def stForm_def getFormConfig_def split: option.split)
qed

lemma cfg_wf_st_form_module:
  "cfg_wf g \<Longrightarrow> g_slot g = Some a \<Longrightarrow> g_heap g a = Some c \<Longrightarrow> cfg_wf (st_form_module env g)"
  by (auto simp: cfg_wf_def st_form_module_Some)

subsection \<open>Properties\<close>

text \<open>
  C25.  On an existing global object \<open>st-form.ts\<close> initialises each
  field at most once: a field the object already holds (truthy, or a
  defined listener list) is kept, and every other field gets its default
  from the environment.
\<close>

theorem st_form_fills_unset_fields:
  assumes "g_slot g = Some a" and "g_heap g a = Some c"
  shows "\<exists>c'. stForm (st_form_module env g) = Some c'
     \<and> cfg_logDebugMessages c' = (if js_truthy (cfg_logDebugMessages c) then cfg_logDebugMessages c
                                  else FBool (env ''ST_FORM_LOG_DEBUG_MESSAGE'' = Some ''true''))
     \<and> cfg_validatorName c' = (if js_truthy (cfg_validatorName c) then cfg_validatorName c else FStr ''VALIDATOR_NAME'')
     \<and> cfg_validationPropertyName c' =
         (if js_truthy (cfg_validationPropertyName c) then cfg_validationPropertyName c
          else (case env ''ST_FORM_VALIDATION_PROPERTY_NAME'' of
                  Some s \<Rightarrow> if s = [] then FStr ''VALIDATION'' else FStr s | None \<Rightarrow> FStr ''VALIDATION''))
     \<and> cfg_validationDebounceTimeInMs c' =
         (if js_truthy (cfg_validationDebounceTimeInMs c) then cfg_validationDebounceTimeInMs c
          else js_or (getValidationDebounceTimeInMsFromEnv env) (FNum 250))
     \<and> cfg_validationEventListener c' =
         (case cfg_validationEventListener c of Some l \<Rightarrow> Some l | None \<Rightarrow> Some (default_listeners env))"
  using assms
  by (simp add: stForm_st_form_module js_or_def env_val_def getLogDebugFromEnv_def split: option.split)

theorem st_form_fills_unset_fields_witness:
  "\<exists>c'. stForm (st_form_module [''ST_FORM_VALIDATION_DEBOUNCE_TIME_IN_MS'' \<mapsto> show_int 100] ex_global) = Some c'
     \<and> cfg_validationPropertyName c' = FStr ''X'' \<and> cfg_validatorName c' = FStr ''VALIDATOR_NAME''
     \<and> cfg_validationDebounceTimeInMs c' = FNum 100 \<and> cfg_logDebugMessages c' = FBool False"
proof -
  have h1: "g_slot ex_global = Some 0" by (simp add: ex_global_def)
  have h2: "g_heap ex_global 0 = Some (empty_cfg\<lparr>cfg_validationPropertyName := FStr ''X''\<rparr>)"
    by (simp add: ex_global_def)
  have p: "getValidationDebounceTimeInMsFromEnv [''ST_FORM_VALIDATION_DEBOUNCE_TIME_IN_MS'' \<mapsto> show_int 100] = FNum 100"
  proof -
    have "show_int 100 \<noteq> []" by (simp add: show_int_def show_nat_nonempty)
    moreover have "parse_int (show_int 100) = FNum 100" by (simp only: parse_show_int) (simp add: round_double_safe)
    ultimately show ?thesis by (simp add: getValidationDebounceTimeInMsFromEnv_def)
  qed
  show ?thesis
    using st_form_fills_unset_fields[OF h1 h2, of "[''ST_FORM_VALIDATION_DEBOUNCE_TIME_IN_MS'' \<mapsto> show_int 100]"] p
    by (simp add: empty_cfg_def js_or_def) blast
qed



text \<open>
  C27.  Evaluating \<open>config.ts\<close> replaces the global \<open>$stForm\<close> with a
  fresh object holding the environment defaults: \<open>getFormConfig()\<close> then
  returns that object, while \<open>stForm\<close>, bound by \<open>st-form.ts\<close>, still
  refers to the old one.
\<close>

theorem config_replaces_global:
  assumes "cfg_wf g"
  shows "stForm (config_module env g) = stForm g \<and> getFormConfig (config_module env g) = Some (defaultFormConfig env)"
  using assms by (rule config_module_sel)


theorem config_replaces_global_witness:
  "stForm (config_module Map.empty (st_form_module Map.empty ex_global)) = stForm (st_form_module Map.empty ex_global)
   \<and> getFormConfig (config_module Map.empty (st_form_module Map.empty ex_global)) = Some (defaultFormConfig Map.empty)"
proof -
  have "cfg_wf (st_form_module Map.empty ex_global)"
    by (simp add: cfg_wf_def st_form_module_def ex_global_def)
  then show ?thesis by (rule config_replaces_global)
qed

text \<open>
  C28.  The debounce delay read from the environment is the number written
  there, for every safe integer (magnitude at most
  \<open>Number.MAX_SAFE_INTEGER\<close>), except that \<open>0\<close> (falsy) gives the
  default \<open>250\<close>: printing the integer into
  \<open>ST_FORM_VALIDATION_DEBOUNCE_TIME_IN_MS\<close> and reading it back through
  \<open>parseInt(env) || 250\<close> yields it.
\<close>

theorem debounce_env_roundtrip:
  assumes "env ''ST_FORM_VALIDATION_DEBOUNCE_TIME_IN_MS'' = Some (show_int n)" and "\<bar>n\<bar> \<le> 2 ^ 53 - 1"
  shows "cfg_validationDebounceTimeInMs (defaultFormConfig env) = FNum (if n = 0 then 250 else n)"
proof -
  have ne: "show_int n \<noteq> []" by (simp add: show_int_def show_nat_nonempty)
  have r: "round_double n = n" using assms(2) by (intro round_double_safe) simp
  show ?thesis
    using assms(1) ne r by (simp add: defaultFormConfig_readers empty_cfg_def getValidationDebounceTimeInMsFromEnv_def
                              parse_show_int js_or_def)
qed

theorem debounce_env_roundtrip_witness:
  "cfg_validationDebounceTimeInMs (defaultFormConfig [''ST_FORM_VALIDATION_DEBOUNCE_TIME_IN_MS'' \<mapsto> show_int (-5)]) = FNum (-5)"
  using debounce_env_roundtrip[of "[''ST_FORM_VALIDATION_DEBOUNCE_TIME_IN_MS'' \<mapsto> show_int (-5)]" "-5"] by simp

text \<open>
  C29.  The event names read from the environment are its
  \<open>|\<close>-separated parts: joining names that contain no \<open>|\<close> into
  \<open>ST_FORM_VALIDATION_EVENT_LISTENER\<close> and reading it back yields them.
\<close>

theorem listeners_env_roundtrip:
  assumes "env ''ST_FORM_VALIDATION_EVENT_LISTENER'' = Some (join_with CHR ''|'' ws)"
    and "join_with CHR ''|'' ws \<noteq> []" and "ws \<noteq> []" and "\<forall>w \<in> set ws. CHR ''|'' \<notin> set w"
  shows "cfg_validationEventListener (defaultFormConfig env) = Some ws"
  using assms split_on_join[OF assms(3,4)]
  by (simp add: defaultFormConfig_readers empty_cfg_def default_listeners_def getValidationEventListenerFromEnv_def)

theorem listeners_env_roundtrip_witness:
  "cfg_validationEventListener (defaultFormConfig [''ST_FORM_VALIDATION_EVENT_LISTENER'' \<mapsto> ''input|blur'']) = Some [''input'', ''blur'']"
proof -
  have h: "join_with CHR ''|'' [''input'', ''blur''] = ''input|blur''" by simp
  show ?thesis
    using listeners_env_roundtrip[of "[''ST_FORM_VALIDATION_EVENT_LISTENER'' \<mapsto> ''input|blur'']" "[''input'', ''blur'']"]
    by (simp only: h) simp
qed

text \<open>
  C30.  A non-empty \<open>ST_FORM_VALIDATION_EVENT_LISTENER\<close> yields exactly one
  more event name than it has \<open>|\<close> characters; empty names are kept, so
  \<open>change|\<close> subscribes to an event with the empty name.
\<close>

theorem listeners_env_count:
  assumes "env ''ST_FORM_VALIDATION_EVENT_LISTENER'' = Some s" and "s \<noteq> []"
  shows "length (default_listeners env) = Suc (count_list s CHR ''|'')"
  using assms by (simp add: default_listeners_def getValidationEventListenerFromEnv_def split_on_length)

theorem listeners_env_count_witness:
  "length (default_listeners [''ST_FORM_VALIDATION_EVENT_LISTENER'' \<mapsto> ''change|'']) = 2"
  using listeners_env_count[of "[''ST_FORM_VALIDATION_EVENT_LISTENER'' \<mapsto> ''change|'']" "''change|''"] by simp

text \<open>
  C37.  On a global object without \<open>$stForm\<close>, \<open>st-form.ts\<close> and
  \<open>config.ts\<close> build the same configuration from any environment, apart
  from the two fields only \<open>st-form.ts\<close> sets (\<open>globalThis\<close> and
  \<open>validatorName\<close>): the two copies of the environment readers agree.
\<close>

theorem config_agrees_with_st_form:
  "stForm (st_form_module env fresh_global) =
     Some ((defaultFormConfig env)\<lparr>cfg_globalThis := True, cfg_validatorName := FStr ''VALIDATOR_NAME''\<rparr>)"
  by (simp add: st_form_module_None stForm_def config_examples defaultFormConfig_readers js_or_def)

end
