(* ===== verification/Lifecycle.thy ===== *)
theory Lifecycle
  imports Validation Config
begin

text \<open>
  The lifecycle of a \<open>Validation\<close> component
  (\<open>src/component/validation/validation.ts\<close>, lines 65--93 and 182--191):
  \<open>onAfterRender\<close> binds the first \<open>input\<close> (else the first \<open>textarea\<close>)
  below the component and registers the component on it under
  \<open>stForm.validationPropertyName\<close>; \<open>onConnect\<close> and \<open>onDisconnect\<close> add
  and remove one listener per event name on the component's element; a
  listener calls \<open>validate()\<close> when the event's target is the bound element.
  A listener is identified by its event name and its closure: every call of
  \<open>onTargetEvent(name)\<close> creates a new closure, which is a fresh number
  here.
\<close>

subsection \<open>onAfterRender\<close>

fun update_first_tag :: "etag \<Rightarrow> (felem \<Rightarrow> felem) \<Rightarrow> felem list \<Rightarrow> felem list option" where
  "update_first_tag t g [] = None"
| "update_first_tag t g (e # es) =
     (if e_tag e = t then Some (g e # es) else map_option (Cons e) (update_first_tag t g es))"

definition register :: "string \<Rightarrow> nat \<Rightarrow> felem \<Rightarrow> felem" where
  "register p c e = e\<lparr>e_props := obj_set p c (e_props e)\<rparr>"

text \<open>
  The descendants of component \<open>c\<close> in document order, with the element
  that becomes \<open>target\<close> carrying \<open>c\<close> under property \<open>p\<close>; \<open>None\<close> when
  there is neither an \<open>input\<close> nor a \<open>textarea\<close> (the code only logs).
\<close>

definition validation_after_render :: "string \<Rightarrow> nat \<Rightarrow> felem list \<Rightarrow> felem list option" where
  "validation_after_render p c els =
     (case update_first_tag EInput (register p c) els of
        Some els' \<Rightarrow> Some els'
      | None \<Rightarrow> update_first_tag ETextArea (register p c) els)"

subsection \<open>Listeners\<close>

record host =
  h_listeners :: "(string \<times> nat) list"
  h_next_closure :: nat

definition onTargetEvent :: "host \<Rightarrow> host \<times> nat" where
  "onTargetEvent h = (h\<lparr>h_next_closure := Suc (h_next_closure h)\<rparr>, h_next_closure h)"

definition addEventListener :: "string \<Rightarrow> nat \<Rightarrow> host \<Rightarrow> host" where
  "addEventListener ty f h =
     (if (ty, f) \<in> set (h_listeners h) then h else h\<lparr>h_listeners := h_listeners h @ [(ty, f)]\<rparr>)"

definition removeEventListener :: "string \<Rightarrow> nat \<Rightarrow> host \<Rightarrow> host" where
  "removeEventListener ty f h = h\<lparr>h_listeners := filter (\<lambda>l. l \<noteq> (ty, f)) (h_listeners h)\<rparr>"

fun onConnect :: "string list \<Rightarrow> host \<Rightarrow> host" where
  "onConnect [] h = h"
| "onConnect (ty # tys) h = (let (h1, f) = onTargetEvent h in onConnect tys (addEventListener ty f h1))"

fun onDisconnect :: "string list \<Rightarrow> host \<Rightarrow> host" where
  "onDisconnect [] h = h"
| "onDisconnect (ty # tys) h = (let (h1, f) = onTargetEvent h in onDisconnect tys (removeEventListener ty f h1))"

text \<open>\<open>this.eventListeners || stForm.validationEventListener\<close>; \<open>None\<close> when both are undefined.\<close>

definition listener_names :: "string list option \<Rightarrow> cfg \<Rightarrow> string list option" where
  "listener_names attr c = (case attr of Some ns \<Rightarrow> Some ns | None \<Rightarrow> cfg_validationEventListener c)"

text \<open>
  An event of type \<open>ty\<close> reaching the component's element: every listener
  for \<open>ty\<close>, in the order they were added, calls \<open>validate()\<close> when the
  event's target is the bound element.
\<close>

definition dispatch_event :: "string \<Rightarrow> bool \<Rightarrow> host \<Rightarrow> validation \<Rightarrow> validation" where
  "dispatch_event ty on_target h v =
     fold (\<lambda>l w. if fst l = ty \<and> on_target then validate False w else w) (h_listeners h) v"

text \<open>
  The hosts a component's element goes through from \<open>h0\<close> under any
  interleaving of \<open>onConnect\<close> and \<open>onDisconnect\<close> with the same event
  names, counting the connects.
\<close>

inductive mounted :: "string list \<Rightarrow> host \<Rightarrow> nat \<Rightarrow> host \<Rightarrow> bool" for ns :: "string list" and h0 :: host where
  init: "mounted ns h0 0 h0"
| connect: "mounted ns h0 k h \<Longrightarrow> mounted ns h0 (Suc k) (onConnect ns h)"
| disconnect: "mounted ns h0 k h \<Longrightarrow> mounted ns h0 k (onDisconnect ns h)"

definition host_wf :: "host \<Rightarrow> bool" where
  "host_wf h \<longleftrightarrow> (\<forall>l \<in> set (h_listeners h). snd l < h_next_closure h)"

subsection \<open>Lemmas\<close>

lemma onTargetEvent_fresh:
  assumes "host_wf h" and "onTargetEvent h = (h1, f)"
  shows "f \<notin> snd ` set (h_listeners h) \<and> h_listeners h1 = h_listeners h
     \<and> h_next_closure h1 = Suc f \<and> f = h_next_closure h"
proof -
  have "h_next_closure h \<notin> snd ` set (h_listeners h)" using assms(1) unfolding host_wf_def by fastforce
  then show ?thesis using assms(2) by (auto simp: onTargetEvent_def)
qed

lemma onConnect_listeners:
  "host_wf h \<Longrightarrow> map fst (h_listeners (onConnect ns h)) = map fst (h_listeners h) @ ns \<and> host_wf (onConnect ns h)"
proof (induction ns arbitrary: h)
  case Nil
  then show ?case by simp
next
  case (Cons ty tys)
  obtain h1 f where e: "onTargetEvent h = (h1, f)" by (cases "onTargetEvent h")
  note F = onTargetEvent_fresh[OF Cons.prems e]
  let ?h2 = "addEventListener ty f h1"
  have "(ty, f) \<notin> set (h_listeners h)" using F by force
  then have l2: "h_listeners ?h2 = h_listeners h @ [(ty, f)]" using F by (simp add: addEventListener_def)
  have "host_wf ?h2"
    using Cons.prems F l2 by (auto simp: host_wf_def addEventListener_def)
  with Cons.IH[of ?h2] show ?case using e l2 by simp
qed

lemma onDisconnect_listeners:
  "host_wf h \<Longrightarrow> h_listeners (onDisconnect ns h) = h_listeners h \<and> host_wf (onDisconnect ns h)"
proof (induction ns arbitrary: h)
  case Nil
  then show ?case by simp
next
  case (Cons ty tys)
  obtain h1 f where e: "onTargetEvent h = (h1, f)" by (cases "onTargetEvent h")
  note F = onTargetEvent_fresh[OF Cons.prems e]
  let ?h2 = "removeEventListener ty f h1"
  have "(ty, f) \<notin> set (h_listeners h)" using F by force
  then have l2: "h_listeners ?h2 = h_listeners h"
    using F by (auto simp: removeEventListener_def filter_id_conv)
  have "host_wf ?h2" using Cons.prems F l2 by (auto simp: host_wf_def removeEventListener_def)
  with Cons.IH[of ?h2] show ?case using e l2 by simp
qed

lemma dispatch_fold:
  "fold (\<lambda>l w. if fst l = ty \<and> b then validate False w else w) ls v
     = (if b then (validate False ^^ count_list (map fst ls) ty) v else v)"
  by (induction ls arbitrary: v) (simp_all add: funpow_Suc_right del: funpow.simps)

lemma dispatch_event_count:
  "dispatch_event ty True h v = (validate False ^^ count_list (map fst (h_listeners h)) ty) v"
  unfolding dispatch_event_def using dispatch_fold[of ty True] by simp

lemma count_list_distinct: "distinct xs \<Longrightarrow> x \<in> set xs \<Longrightarrow> count_list xs x = 1"
  by (induction xs) (auto simp: count_list_0_iff)

lemma host_wf_empty: "h_listeners h = [] \<Longrightarrow> host_wf h"
  by (simp add: host_wf_def)

lemma cycle_listeners:
  "host_wf h \<Longrightarrow> map fst (h_listeners (onDisconnect ns (onConnect ns h))) = map fst (h_listeners h) @ ns
     \<and> host_wf (onDisconnect ns (onConnect ns h))"
  using onConnect_listeners[of h ns] onDisconnect_listeners[of "onConnect ns h" ns] by simp

subsection \<open>Properties\<close>

text \<open>
  C31.  \<open>onDisconnect\<close> removes no listener: it passes
  \<open>removeEventListener\<close> a closure just created by \<open>onTargetEvent\<close>, never
  the one \<open>onConnect\<close> added, so after connecting and disconnecting the
  element still has one listener per configured event name.
\<close>

theorem disconnect_keeps_listeners:
  assumes "host_wf h"
  shows "h_listeners (onDisconnect ns (onConnect ns h)) = h_listeners (onConnect ns h)
         \<and> map fst (h_listeners (onDisconnect ns (onConnect ns h))) = map fst (h_listeners h) @ ns"
  using onConnect_listeners[OF assms, of ns] onDisconnect_listeners[of "onConnect ns h" ns] by simp

theorem disconnect_keeps_listeners_witness:
  "h_listeners (onDisconnect [''change'', ''keyup''] (onConnect [''change'', ''keyup''] \<lparr>h_listeners = [], h_next_closure = 0\<rparr>))
     = [(''change'', 0), (''keyup'', 1)]"
proof -
  have h: "host_wf \<lparr>h_listeners = [], h_next_closure = 0\<rparr>" by (simp add: host_wf_def)
  have "h_listeners (onConnect [''change'', ''keyup''] \<lparr>h_listeners = [], h_next_closure = 0\<rparr>) = [(''change'', 0), (''keyup'', 1)]"
    by (simp add: onTargetEvent_def addEventListener_def)
  then show ?thesis using disconnect_keeps_listeners[OF h, of "[''change'', ''keyup'']"] by simp
qed

text \<open>
  C32.  A field that was connected, disconnected and connected again (a
  re-mount) validates twice on every event it listens to: the first of the
  two \<open>validate()\<close> calls is superseded by the second at once and resolves
  \<open>false\<close>, and the debounce timer left pending is the second call's.
\<close>

theorem reconnect_validates_twice:
  assumes "h_listeners h = []" and "distinct ns" and "ty \<in> set ns"
    and inv: "validation_inv v" and tgt: "target v = Some t"
  shows "let w = dispatch_event ty True (onConnect ns (onDisconnect ns (onConnect ns h))) v
         in next_call w = next_call v + 2 \<and> settled w (next_call v) = Some (Resolved False)
            \<and> timeout w = Some (Suc (next_call v), False)"
proof -
  let ?H = "onConnect ns (onDisconnect ns (onConnect ns h))"
  have "map fst (h_listeners ?H) = ns @ ns"
    using cycle_listeners[OF host_wf_empty[OF assms(1)], of ns] onConnect_listeners assms(1) by simp
  then have cnt: "count_list (map fst (h_listeners ?H)) ty = 2"
    using count_list_distinct[OF assms(2,3)] by simp
  let ?v1 = "validate False v"
  note b = validate_bound[OF inv tgt, of False]
  have "settled (validate False ?v1) (next_call v) = Some (Resolved False)
        \<and> next_call (validate False ?v1) = next_call v + 2 \<and> timeout (validate False ?v1) = Some (Suc (next_call v), False)"
    using b tgt by (simp add: validate_def Let_def)
  then show ?thesis using cnt by (simp add: dispatch_event_count numeral_2_eq_2)
qed

theorem reconnect_validates_twice_witness:
  "let w = dispatch_event ''change'' True (onConnect [''change'', ''keyup''] (onDisconnect [''change'', ''keyup'']
             (onConnect [''change'', ''keyup''] \<lparr>h_listeners = [], h_next_closure = 0\<rparr>))) ex_field
   in next_call w = 2 \<and> settled w 0 = Some (Resolved False) \<and> timeout w = Some (1, False)"
proof -
  have inv: "validation_inv ex_field" by (simp add: validation_inv_def validation_examples)
  have tgt: "target ex_field = Some (ex_target ''a'')" by (simp add: ex_field_def init_validation_def)
  have nc: "next_call ex_field = 0" by (simp add: validation_examples)
  show ?thesis
    using reconnect_validates_twice[of "\<lparr>h_listeners = [], h_next_closure = 0\<rparr>" "[''change'', ''keyup'']" "''change''",
        OF _ _ _ inv tgt] nc by (simp add: Let_def numeral_2_eq_2 del: onConnect.simps onDisconnect.simps)
qed

text \<open>
  C33.  Listeners leak: after any interleaving of mounts and unmounts with
  \<open>k\<close> mounts the element holds \<open>k\<close> more listeners for every configured
  event name, so the number of \<open>validate()\<close> calls per event grows with
  every re-mount and never shrinks.
\<close>

theorem listeners_grow_per_cycle:
  assumes "host_wf h0" and "mounted ns h0 k h"
  shows "count_list (map fst (h_listeners h)) ty = count_list (map fst (h_listeners h0)) ty + k * count_list ns ty
         \<and> host_wf h"
  using assms(2)
proof (induction rule: mounted.induct)
  case init
  then show ?case using assms(1) by simp
next
  case (connect k h)
  then show ?case using onConnect_listeners[of h ns] by simp
next
  case (disconnect k h)
  then show ?case using onDisconnect_listeners[of h ns] by simp
qed

theorem listeners_grow_per_cycle_witness:
  "count_list (map fst (h_listeners (onDisconnect [''change''] (onConnect [''change''] (onConnect [''change'']
      \<lparr>h_listeners = [], h_next_closure = 0\<rparr>))))) ''change'' = 2"
proof -
  let ?h0 = "\<lparr>h_listeners = [], h_next_closure = 0\<rparr> :: host"
  have h: "host_wf ?h0" by (simp add: host_wf_def)
  have m: "mounted [''change''] ?h0 2 (onDisconnect [''change''] (onConnect [''change''] (onConnect [''change''] ?h0)))"
    using mounted.disconnect[OF mounted.connect[OF mounted.connect[OF mounted.init]]]
    by (simp add: numeral_2_eq_2 del: onConnect.simps onDisconnect.simps)
  show ?thesis using listeners_grow_per_cycle[OF h m, of "''change''"]
    by (simp del: onConnect.simps onDisconnect.simps)
qed

end
