(* ===== verification/FormRender.thy ===== *)
theory FormRender
  imports System Lifecycle
begin

text \<open>
  The rendering side of \<open>Form\<close> (\<open>src/component/form/form.tsx\<close>, lines
  49--73 and 175--177).  \<open>render()\<close> creates the \<open>form\<close> element
  (\<open>formRef\<close>).  \<open>onAfterRender()\<close> then stores the component on that
  element under \<open>FROM\<close> (\<open>addFormToForm\<close>) and adds a \<open>submit\<close> listener
  that prevents the default action (\<open>overrideSubmit\<close>).  \<open>reset()\<close>
  resets the form element.

  The page is a registry: the \<open>Form\<close> components with their names and
  element collections, each component's form element, the \<open>FROM\<close>
  expando of every form element, the form elements below each form element
  in document order (\<open>querySelectorAll('form')\<close>), the logical parents, and
  the listeners of every form element.  \<open>page_dom\<close> is the view
  \<open>Form.thy\<close> reads: the descendants of a form are the \<open>FROM\<close> values of
  the form elements below its own.
\<close>

record page =
  pg_forms :: "nat \<rightharpoonup> string \<times> felem list"
  pg_el :: "nat \<rightharpoonup> nat"
  pg_from :: "nat \<rightharpoonup> nat"
  pg_below :: "nat \<Rightarrow> nat list"
  pg_parent :: "nat \<rightharpoonup> nat"
  pg_hosts :: "nat \<Rightarrow> host"

definition page_form :: "page \<Rightarrow> nat \<Rightarrow> form option" where
  "page_form pg c =
     (case (pg_forms pg c, pg_el pg c) of
        (Some (n, els), Some el) \<Rightarrow>
          Some \<lparr>f_name = n, f_elements = els, f_descendants = map (pg_from pg) (pg_below pg el)\<rparr>
      | _ \<Rightarrow> None)"

definition page_dom :: "page \<Rightarrow> dom" where
  "page_dom pg = \<lparr>d_forms = page_form pg, d_parent = pg_parent pg\<rparr>"

subsection \<open>onAfterRender\<close>

text \<open>\<open>(this.formRef as any)[FORM_PROPERTY_NAME] = this\<close>.\<close>

definition addFormToForm :: "nat \<Rightarrow> nat \<Rightarrow> page \<Rightarrow> page" where
  "addFormToForm c el pg = pg\<lparr>pg_from := (pg_from pg)(el \<mapsto> c)\<rparr>"

text \<open>
  \<open>this.formRef.addEventListener('submit', (evt) => ...)\<close>: a new arrow
  function, so a fresh closure, on every call.
\<close>

definition overrideSubmit :: "nat \<Rightarrow> page \<Rightarrow> page" where
  "overrideSubmit el pg =
     (let h = pg_hosts pg el; f = h_next_closure h;
          h' = addEventListener ''submit'' f (h\<lparr>h_next_closure := Suc f\<rparr>)
      in pg\<lparr>pg_hosts := (pg_hosts pg)(el := h')\<rparr>)"

text \<open>\<open>onAfterRender()\<close> of component \<open>c\<close>, whose \<open>formRef\<close> is \<open>el\<close>.\<close>

definition form_onAfterRender :: "nat \<Rightarrow> page \<Rightarrow> page" where
  "form_onAfterRender c pg =
     (case pg_el pg c of Some el \<Rightarrow> overrideSubmit el (addFormToForm c el pg) | None \<Rightarrow> pg)"

text \<open>
  A \<open>submit\<close> event on a form element: every \<open>submit\<close> listener calls
  \<open>evt.preventDefault()\<close>.  The result is whether the default action (the
  page navigation) is prevented.
\<close>

definition submit_prevented :: "page \<Rightarrow> nat \<Rightarrow> bool" where
  "submit_prevented pg el \<longleftrightarrow> (\<exists>l \<in> set (h_listeners (pg_hosts pg el)). fst l = ''submit'')"

subsection \<open>reset\<close>

text \<open>
  \<open>this.formRef.reset()\<close>: every control of the form gets back its
  default value and checkedness, given by \<open>dflt\<close>.  No \<open>change\<close> or
  \<open>keyup\<close> event is fired.
\<close>

definition form_reset :: "(felem \<Rightarrow> fvalue \<times> bool) \<Rightarrow> nat \<Rightarrow> page \<Rightarrow> page" where
  "form_reset dflt c pg =
     pg\<lparr>pg_forms := (pg_forms pg)(c := map_option (\<lambda>(n, els).
          (n, map (\<lambda>e. e\<lparr>e_value := fst (dflt e), e_checked := snd (dflt e)\<rparr>) els)) (pg_forms pg c))\<rparr>"

subsection \<open>Example\<close>

text \<open>
  Form 0 on form element 10 holds form 1 on form element 11; form 0 has
  rendered, form 1 has not.
\<close>

definition ex_page :: page where
  "ex_page = \<lparr>pg_forms = [0 \<mapsto> (''form'', [ex_el ''a'' ''1'']), 1 \<mapsto> (''child'', [ex_el ''b'' ''2''])],
     pg_el = [0 \<mapsto> 10, 1 \<mapsto> 11], pg_from = [10 \<mapsto> 0], pg_below = (\<lambda>e. if e = 10 then [11] else []),
     pg_parent = [1 \<mapsto> 0], pg_hosts = (\<lambda>_. \<lparr>h_listeners = [], h_next_closure = 0\<rparr>)\<rparr>"

subsection \<open>Lemmas\<close>

lemma collect_subforms_registered:
  "collect_subforms d t ps = Some subs \<Longrightarrow> fst ` set subs \<subseteq> {g. Some g \<in> set ps}"
proof (induction ps arbitrary: subs)
  case Nil
  then show ?case by simp
next
  case (Cons p ps)
  show ?case
  proof (cases p)
    case None
    with Cons show ?thesis by auto
  next
    case (Some g)
    show ?thesis
    proof (cases "d_forms d g = None \<or> g = t")
      case True
      with Cons Some show ?thesis by (auto split: option.splits)
    next
      case False
      then obtain gm where gm: "d_forms d g = Some gm" and ne: "g \<noteq> t" by auto
      from Cons.prems Some gm ne obtain k rest where "collect_subforms d t ps = Some rest"
        and "subs = replicate k (g, gm) @ rest"
        by (auto simp: bind_eq_Some_conv)
      with Cons.IH Some show ?thesis by fastforce
    qed
  qed
qed

lemma form_onAfterRender_sel [simp]:
  "pg_forms (form_onAfterRender c pg) = pg_forms pg" "pg_el (form_onAfterRender c pg) = pg_el pg"
  "pg_below (form_onAfterRender c pg) = pg_below pg" "pg_parent (form_onAfterRender c pg) = pg_parent pg"
  by (simp_all add: form_onAfterRender_def overrideSubmit_def addFormToForm_def Let_def split: option.split)

lemma form_onAfterRender_from:
  "pg_el pg c = Some el \<Longrightarrow> pg_from (form_onAfterRender c pg) = (pg_from pg)(el \<mapsto> c)"
  by (simp add: form_onAfterRender_def overrideSubmit_def addFormToForm_def Let_def)

lemma page_form_descendants:
  "page_form pg c = Some fm \<Longrightarrow> \<exists>el. pg_el pg c = Some el \<and> f_descendants fm = map (pg_from pg) (pg_below pg el)"
  by (auto simp: page_form_def split: option.splits prod.splits)

lemma form_onAfterRender_prevents_submit:
  "pg_el pg c = Some el \<Longrightarrow> submit_prevented (form_onAfterRender c pg) el"
proof -
  assume el: "pg_el pg c = Some el"
  let ?h = "pg_hosts (addFormToForm c el pg) el"
  have "(''submit'', h_next_closure ?h) \<in> set (h_listeners (addEventListener ''submit'' (h_next_closure ?h)
          (?h\<lparr>h_next_closure := Suc (h_next_closure ?h)\<rparr>)))"
    by (simp add: addEventListener_def)
  then show ?thesis using el
    by (auto simp: form_onAfterRender_def overrideSubmit_def submit_prevented_def Let_def intro!: bexI[of _ "(''submit'', h_next_closure ?h)"])
qed

lemma overrideSubmit_listeners:
  "host_wf (pg_hosts pg el) \<Longrightarrow>
     h_listeners (pg_hosts (overrideSubmit el pg) el) = h_listeners (pg_hosts pg el) @ [(''submit'', h_next_closure (pg_hosts pg el))]
     \<and> host_wf (pg_hosts (overrideSubmit el pg) el)"
  by (auto simp: overrideSubmit_def addEventListener_def host_wf_def Let_def)

lemma getElements_values:
  "getElements p (map (\<lambda>e. e\<lparr>e_value := f e, e_checked := g e\<rparr>) els) = getElements p els"
  by (induction els) (auto split: option.split)

lemma form_reset_keeps_fields:
  "pg_forms pg c = Some (n, els) \<Longrightarrow> pg_forms (form_reset dflt c pg) c = Some (n, els') \<Longrightarrow>
     getElements p els' = getElements p els"
  by (auto simp: form_reset_def getElements_values)

lemma page_form_Some:
  "pg_forms pg c \<noteq> None \<Longrightarrow> pg_el pg c = Some el \<Longrightarrow>
     \<exists>fm. page_form pg c = Some fm \<and> f_descendants fm = map (pg_from pg) (pg_below pg el)"
  by (auto simp: page_form_def)

subsection \<open>Properties\<close>

text \<open>
  C16.  A nested form is seen by an enclosing form only once its own
  \<open>onAfterRender()\<close> has stored it on its \<open>form\<close> element.  Before that,
  the element carries no \<open>FROM\<close> and \<open>getSubForm\<close> skips it (it only logs
  an error), so a \<open>Form.validate()\<close> of the enclosing form neither validates
  it nor includes its state.  Afterwards it is returned, provided the
  parent walks end.
\<close>

theorem subform_needs_registration:
  assumes t: "pg_el pg t = Some et" "pg_forms pg t \<noteq> None"
    and c: "pg_el pg c = Some ec" "pg_forms pg c \<noteq> None" "ec \<in> set (pg_below pg et)" "c \<noteq> t"
    and unreg: "\<forall>x. pg_from pg x \<noteq> Some c"
    and anc: "ancestors (pg_parent pg) n (pg_parent pg c) = Some as" "t \<in> set as"
    and ends: "chains_end (page_dom (form_onAfterRender c pg)) n (map (pg_from (form_onAfterRender c pg)) (pg_below pg et))"
  shows "(\<forall>fm subs. page_form pg t = Some fm \<longrightarrow> getSubForm (page_dom pg) t fm = Some subs \<longrightarrow> c \<notin> fst ` set subs)
         \<and> (\<exists>fm subs. page_form (form_onAfterRender c pg) t = Some fm
              \<and> getSubForm (page_dom (form_onAfterRender c pg)) t fm = Some subs \<and> c \<in> fst ` set subs)"
proof
  show "\<forall>fm subs. page_form pg t = Some fm \<longrightarrow> getSubForm (page_dom pg) t fm = Some subs \<longrightarrow> c \<notin> fst ` set subs"
  proof (intro allI impI)
    fix fm subs
    assume "page_form pg t = Some fm" and g: "getSubForm (page_dom pg) t fm = Some subs"
    then obtain el where "f_descendants fm = map (pg_from pg) (pg_below pg el)"
      using page_form_descendants by blast
    then have "Some c \<notin> set (f_descendants fm)" using unreg by auto
    then show "c \<notin> fst ` set subs"
      using collect_subforms_registered[of "page_dom pg" t "f_descendants fm" subs] g
      by (auto simp: getSubForm_def)
  qed
next
  let ?pg = "form_onAfterRender c pg"
  have from': "pg_from ?pg = (pg_from pg)(ec \<mapsto> c)" by (rule form_onAfterRender_from[OF c(1)])
  obtain fm where fm: "page_form ?pg t = Some fm" and desc: "f_descendants fm = map (pg_from ?pg) (pg_below pg et)"
    using page_form_Some[of ?pg t et] t by auto
  obtain gm where gm: "d_forms (page_dom ?pg) c = Some gm"
    using page_form_Some[of ?pg c ec] c by (auto simp: page_dom_def)
  have reg: "Some c \<in> set (f_descendants fm)" using desc from' c(3) by force
  obtain subs where subs: "collect_subforms (page_dom ?pg) t (f_descendants fm) = Some subs"
    and set_subs: "set subs = {(g, gm). Some g \<in> set (f_descendants fm) \<and> d_forms (page_dom ?pg) g = Some gm \<and> g \<noteq> t \<and>
                 (\<exists>as. ancestors (d_parent (page_dom ?pg)) n (d_parent (page_dom ?pg) g) = Some as \<and> t \<in> set as)}"
    using collect_subforms_set[of "page_dom ?pg" n "f_descendants fm" t] ends desc by auto
  have "(c, gm) \<in> set subs" using set_subs reg gm c(4) anc by (auto simp: page_dom_def)
  then show "\<exists>fm subs. page_form ?pg t = Some fm \<and> getSubForm (page_dom ?pg) t fm = Some subs \<and> c \<in> fst ` set subs"
    using fm subs by (force simp: getSubForm_def)
qed


theorem subform_needs_registration_witness:
  "getSubForm (page_dom ex_page) 0 \<lparr>f_name = ''form'', f_elements = [ex_el ''a'' ''1''], f_descendants = [None]\<rparr> = Some []
   \<and> (\<exists>fm subs. page_form (form_onAfterRender 1 ex_page) 0 = Some fm
        \<and> getSubForm (page_dom (form_onAfterRender 1 ex_page)) 0 fm = Some subs \<and> 1 \<in> fst ` set subs)"
proof -
  have h1: "pg_el ex_page 0 = Some 10" "pg_forms ex_page 0 \<noteq> None" by (simp_all add: ex_page_def)
  have h2: "pg_el ex_page 1 = Some 11" "pg_forms ex_page 1 \<noteq> None" "11 \<in> set (pg_below ex_page 10)" "(1::nat) \<noteq> 0"
    by (simp_all add: ex_page_def)
  have h3: "\<forall>x. pg_from ex_page x \<noteq> Some 1" by (simp add: ex_page_def)
  have h4: "ancestors (pg_parent ex_page) 1 (pg_parent ex_page 1) = Some [0]" "(0::nat) \<in> set [0]"
    by (simp_all add: ex_page_def)
  have h5: "chains_end (page_dom (form_onAfterRender 1 ex_page)) 1
              (map (pg_from (form_onAfterRender 1 ex_page)) (pg_below ex_page 10))"
    by (simp add: ex_page_def chains_end_def page_dom_def form_onAfterRender_def overrideSubmit_def
                  addFormToForm_def addEventListener_def Let_def)
  have "getSubForm (page_dom ex_page) 0 \<lparr>f_name = ''form'', f_elements = [ex_el ''a'' ''1''], f_descendants = [None]\<rparr> = Some []"
    by (simp add: getSubForm_def)
  then show ?thesis using subform_needs_registration[OF h1 h2 h3 h4 h5] by blast
qed

end
