(* ===== verification/Spec2Isabelle.thy ===== *)
theory Spec2Isabelle
  imports FormRender
begin

text \<open>
  \<^bold>\<open>A verification model of st-form.\<close>

  st-form is a form-validation library for the springtype framework.  It
  has three components:
  \<^item> \<open>Validation\<close> (\<open>src/component/validation/validation.ts\<close>) binds to
    one \<open>input\<close> or \<open>textarea\<close>.  On \<open>validate(force)\<close> it debounces with
    a timer, reads the value, runs its validators one by one and publishes
    a frozen state.  It dispatches a \<open>validation\<close> event and resolves the
    call's promise.  A newer call rejects the pending older one.
  \<^item> \<open>InputValidation\<close> (\<open>src/component/validation/input-validation.tsx\<close>)
    turns declarative attributes into the validator list of the
    \<open>Validation\<close> it renders.  It propagates \<open>formIgnore\<close>, \<open>readonly\<close>
    and \<open>disabled\<close> to its input, and delegates \<open>validate\<close> to that
    \<open>Validation\<close>.
  \<^item> The configuration (\<open>src/st-form.ts\<close>, \<open>src/config.ts\<close>) is
    a global \<open>$stForm\<close> object read from the environment: the property
    name under which fields register, the debounce delay, and the event names
    a field listens to.
  \<^item> \<open>Form\<close> (\<open>src/component/form/form.tsx\<close>) finds the \<open>Validation\<close>s
    registered on its elements (\<open>getElements\<close>) and its nested forms
    (\<open>getSubForm\<close>).  \<open>validate\<close> validates both and aggregates the
    results; \<open>getState\<close> takes a snapshot of the form state.

  The components interact through the DOM.  A \<open>Validation\<close> stores itself
  on its element under the configured property name; \<open>Form.getElements\<close>
  reads it back.  A form registers itself on its \<open>form\<close> element under
  \<open>FROM\<close>; \<open>getSubForm\<close> reads it back.  \<open>InputValidation\<close> sets
  properties on the input that \<open>Form\<close> later reads.

  \<^bold>\<open>Theories.\<close>
  \<^item> \<open>Prelude\<close>: the JavaScript values the code compares and stores
    (\<open>fvalue\<close>, \<open>jsval\<close>).  It also holds strict equality
    (\<open>js_strict_eq\<close>: \<open>NaN\<close> is not equal to itself, and objects compare
    by identity), objects as insertion-ordered association lists
    (\<open>obj_set\<close>), first-wins promise settlement (\<open>settle\<close>), and the
    form controls (\<open>felem\<close>).
  \<^item> \<open>Validation\<close>: the record \<open>validation\<close> is the component's fields
    plus the runtime's share of its state: suspended validator runs, the
    outcome of every call, and the dispatched events.  Its operations are
    \<open>validate\<close> (the synchronous part of \<open>validate()\<close>), \<open>fire_timeout\<close>
    (the \<open>setTimeout\<close> callback), \<open>resume_run\<close> (an awaited validator
    completing) and \<open>finish_run\<close> (publish, dispatch, resolve).
    \<open>validation_step\<close> and \<open>validation_run\<close> take these steps in any order
    the event loop allows.  \<open>run_validators\<close> is the validator loop run in
    one go; it is the reference the stepwise run refines.
  \<^item> \<open>InputValidation\<close>: \<open>render_validators\<close> (\<open>render()\<close>),
    \<open>input_after_render\<close> (\<open>onAfterRender()\<close>, with the \<open>BindingError\<close>
    branch) and \<open>input_validate\<close>.
  \<^item> \<open>Form\<close>: \<open>getElements\<close>, \<open>getSubForm\<close> (the parent walk
    \<open>count_chain\<close>) and \<open>getState\<close> (the element scan \<open>scan_elements\<close>,
    the radio groups \<open>radio_value\<close>, recursion into sub-forms
    \<open>getState_list\<close>), over the DOM record \<open>dom\<close>.
  \<^item> \<open>System\<close>: \<open>Form.validate()\<close> running against the fields it
    validates.  Each call is a task (\<open>ftask\<close>) that moves through the two
    \<open>await\<close>s of the method.  \<open>sys_step\<close> interleaves form calls, field
    steps and task resumptions.
  \<^item> \<open>FormRender\<close>: \<open>Form.onAfterRender\<close> (\<open>addFormToForm\<close>,
    \<open>overrideSubmit\<close>) and \<open>Form.reset\<close> over a page registry
    (\<open>page\<close>).  The registry holds the form elements, their \<open>FROM\<close>
    expandos and their listeners; its view \<open>page_dom\<close> is the \<open>dom\<close> of
    \<open>Form\<close>.  \<open>dispatchFormValidation\<close> and its detail record
    \<open>FromValidationDetail\<close> are in \<open>System\<close>.
  \<^item> \<open>Config\<close>: a heap of configuration objects (\<open>gstate\<close>) with the
    global slot and the \<open>stForm\<close> binding.  \<open>st_form_module\<close> is the body
    of \<open>st-form.ts\<close>, one \<open>init_\<close> step per \<open>if (!stForm.x)\<close>, and
    \<open>config_module\<close> and \<open>getFormConfig\<close> are \<open>config.ts\<close>.  The
    environment is a map; \<open>parseInt\<close> (\<open>parse_int\<close>, with sign and
    \<open>0x\<close> prefix, and the rounding of its result to a double,
    \<open>round_double\<close>), \<open>split\<close> (\<open>split_on\<close>), truthiness and \<open>||\<close> are
    written out.  The environment keys are the constants
    \<open>DEFAULT_ST_FORM_..._KEY\<close> of \<open>st-form.ts\<close> and their copies
    \<open>config_DEFAULT_ST_FORM_..._KEY\<close> of \<open>config.ts\<close>.
  \<^item> \<open>Lifecycle\<close>: \<open>Validation.onAfterRender\<close> (binding and
    registration, \<open>validation_after_render\<close>), \<open>onConnect\<close>,
    \<open>onDisconnect\<close> and \<open>onTargetEvent\<close> over the listener list of the
    component's element (\<open>host\<close>), and \<open>dispatch_event\<close>, which runs
    the listeners of one event against a \<open>validation\<close>.  The inductive
    relation \<open>mounted\<close> is every interleaving of mounts and unmounts the
    framework may perform.

  \<^bold>\<open>What the lemmas show.\<close>
  \<^item> Validation, C1--C10:
    \<^item> A completed call resolves with and publishes exactly the result of
      \<open>run_validators\<close>, errors in validator order (refinement).
    \<^item> Every reachable state satisfies \<open>validation_inv\<close>: the published
      state is consistent and at most one call is pending.
    \<^item> The skip rule, cancellation of a pending timer, and the radio
      branch behave as written.
    \<^item> Deviations from the spec are proved as theorems: a superseded run
      still publishes its stale state; a throwing validator leaves its
      call pending; a date or \<open>NaN\<close> value never counts as unchanged; an
      unbound field's promise never resolves.
  \<^item> Form, C11--C17 and C35: \<open>getState\<close> returns whenever the parent
    chains end, with the form's own entries followed by its sub-forms'
    states (termination by a measure on the chain length); radio groups
    report their first checked button, and a lone radio its value even
    unchecked; the members of \<open>getSubForm\<close> (every form with this form
    anywhere on its parent chain) and of \<open>getElements\<close>, and
    \<open>formIgnore\<close>; a sub-form's state replaces a field of the same name.
    C16 (\<open>FormRender\<close>): a nested form is found only after its own
    \<open>onAfterRender\<close> has registered it.
  \<^item> InputValidation, C18, C20, C21: the order of the errors,
    \<open>required={false}\<close>, and the binding error.
  \<^item> System, C19, C22, C23, C36: \<open>sys_inv\<close> holds along every schedule.
    A resolved \<open>Form.validate()\<close> call resolved with the conjunction of
    its field and sub-form results (C22).  Its resumption starts one task
    per form \<open>getSubForm\<close> returned, so a form nested \<open>n\<close> levels deep is
    validated by each of its enclosing forms (C23).  C36 (liveness): a
    form without descendants whose field calls have all resolved is
    resolved by its two resumptions.  C19 (error): a form task that
    called a field bound to no element never resolves; the invariant
    records that a task past its first \<open>await\<close> has only resolved field
    calls (\<open>calls_resolved\<close>), and \<open>fields_keep\<close> carries a field
    invariant through every system step.
  \<^item> Config, C25--C30 and C37:
    \<^item> On an existing global object every field is initialised at most
      once: set fields are kept, the others take the environment default.
    \<^item> \<open>config.ts\<close> replaces the global object.
    \<^item> Safe integers and event-name lists written into the environment
      are read back (round trips of \<open>parse_int\<close>/\<open>show_int\<close> and
      \<open>split_on\<close>/\<open>join_with\<close>); the listener count is bounded by the
      separators.
    \<^item> The two modules' copies of the environment readers agree.
  \<^item> Lifecycle, C31--C33: \<open>onDisconnect\<close> removes no listener, so a
    re-mounted field validates twice per event, and, by rule induction on
    \<open>mounted\<close>, listeners grow by one per event name and mount under any
    interleaving of mounts and unmounts.
  \<^item> C24 and C34, below, span components.
    \<^item> C24: \<open>readonly\<close> on an \<open>InputValidation\<close> does not exclude its
      field from form validation.
    \<^item> C34: a preset property name other than the one \<open>config.ts\<close>
      derives makes \<open>Validation\<close> register where \<open>Form\<close> does not look.

  \<^bold>\<open>Fuel and partiality.\<close>
  \<^item> The parent walk of \<open>getSubForm\<close> is a loop with no bound: a cycle in
    the parent links makes it run forever.  It is therefore a
    \<open>partial_function (option)\<close>, and so is the recursion of
    \<open>getState\<close> into sub-forms.
  \<^item> The fuel function \<open>ancestors\<close> gives the condition under which the
    walk ends: every chain reaches the root within \<open>n\<close> steps
    (\<open>chains_end\<close>).  Under that condition the walk returns, and its count
    equals the number of times \<open>this\<close> occurs on the chain.  Any \<open>n\<close>
    larger than the depth of the component tree is enough.  The same
    condition on all chains makes \<open>getState\<close> return: a sub-form's chain
    passes through \<open>this\<close>, so it is strictly longer, and no chain is
    longer than \<open>n\<close>.
  \<^item> A form task's await that never returns is the phase \<open>Stuck\<close>.  A
    field promise that never settles leaves its task waiting, which is the
    value \<open>None\<close> of its result.

  \<^bold>\<open>Not modelled.\<close>
  \<^item> The debounce delay is not a quantity of the model: a timer firing is
    a step, and any order of steps the event loop allows is a list of
    steps.
  \<^item> Numbers are integers or \<open>NaN\<close>: no fractions and no \<open>Infinity\<close>
    (\<open>parseInt\<close> gives \<open>Infinity\<close> only above about \<open>1.8e308\<close>).
  \<^item> Both configuration modules are assumed to see the same global object.
    springtype's \<open>globalThis\<close> is not in the repository.
  \<^item> springtype's rendering and attribute binding are not modelled: the
    attributes are inputs of the model.
  \<^item> \<open>st.debug\<close> and \<open>st.error\<close> only log.
  \<^item> The built-in validators of st-validate are parameters
    (\<open>builtin_lib\<close>).
  \<^item> \<open>Form.reset\<close> is modelled up to the default values, which are a
    parameter; the fields' published validation states are not touched by
    it.
  \<^item> \<open>Validation.dispatchValidation\<close> (definition \<open>dispatchValidation\<close>,
    called by \<open>finish_run\<close>) records the event's detail in
    \<open>dispatched\<close>; the event's bubbling and listeners are not modelled.
  \<^item> \<open>formRef.checkValidity()\<close> in \<open>Form.validate\<close> only fires
    \<open>invalid\<close> events; its result is discarded, so it is not a step.
  \<^item> The constants \<open>FORM_PROPERTY_NAME\<close>, \<open>FORM_IGNORE_PROPERTY_NAME\<close>
    and \<open>FORM_VALUE_FUNCTION_KEY\<close> name expandos that the model keeps as
    fields (\<open>pg_from\<close>, \<open>e_formIgnore\<close>, \<open>e_valueFunction\<close>).
\<close>

section \<open>Properties spanning components\<close>

lemma getElements_update_first_input:
  assumes "update_first_input g els = Some els'"
    and "\<And>e. e_props (g e) = e_props e \<and> e_disabled (g e) = e_disabled e \<and> e_readonly (g e) = e_readonly e"
  shows "getElements p els' = getElements p els"
  using assms(1)
proof (induction els arbitrary: els')
  case Nil
  then show ?case by simp
next
  case (Cons e es)
  show ?case
  proof (cases "e_tag e = EInput")
    case True
    with Cons.prems assms(2)[of e] show ?thesis by (auto split: option.split)
  next
    case False
    with Cons.prems obtain es' where "update_first_input g es = Some es'" "els' = e # es'" by auto
    with Cons.IH show ?thesis by (simp split: option.split)
  qed
qed

lemma apply_input_attrs_keeps:
  "\<not> disabled a \<Longrightarrow>
     e_props (apply_input_attrs a e) = e_props e \<and> e_disabled (apply_input_attrs a e) = e_disabled e
     \<and> e_readonly (apply_input_attrs a e) = e_readonly e"
  by (simp add: apply_input_attrs_def Let_def)

text \<open>
  C24.  The \<open>readonly\<close> attribute of \<open>InputValidation\<close> does not take its
  field out of the form's validation: \<open>onAfterRender\<close> sets the input's
  \<open>readOnly\<close>, while \<open>Form.getElements\<close> tests \<open>readonly\<close>; whatever
  \<open>readonly\<close> and \<open>formIgnore\<close> say, the form validates the same fields
  unless \<open>disabled\<close> is set.
\<close>

theorem readonly_field_still_validated:
  "input_after_render a els = Inr els' \<Longrightarrow> \<not> disabled a \<Longrightarrow> getElements p els' = getElements p els"
  by (auto simp: input_after_render_def apply_input_attrs_keeps split: option.splits
           intro: getElements_update_first_input)

theorem readonly_field_still_validated_witness:
  "readonly (ex_attrs\<lparr>readonly := True\<rparr>) \<and> \<not> disabled (ex_attrs\<lparr>readonly := True\<rparr>)
   \<and> input_after_render (ex_attrs\<lparr>readonly := True\<rparr>) [ex_vel ''a'' 0] = Inr [(ex_vel ''a'' 0)\<lparr>e_readOnly := True\<rparr>]
   \<and> getElements ''VALIDATION'' [(ex_vel ''a'' 0)\<lparr>e_readOnly := True\<rparr>] = [0]"
proof -
  have h1: "input_after_render (ex_attrs\<lparr>readonly := True\<rparr>) [ex_vel ''a'' 0] = Inr [(ex_vel ''a'' 0)\<lparr>e_readOnly := True\<rparr>]"
    by (simp add: input_after_render_def apply_input_attrs_def ex_attrs_def ex_vel_def ex_el_def)
  have h2: "\<not> disabled (ex_attrs\<lparr>readonly := True\<rparr>)" by (simp add: ex_attrs_def)
  have "getElements ''VALIDATION'' [ex_vel ''a'' 0] = [0]" by (simp add: ex_vel_def ex_el_def)
  then show ?thesis using readonly_field_still_validated[OF h1 h2, of "''VALIDATION''"] h1 h2 by simp
qed

lemma getElements_no_props: "\<forall>e \<in> set els. e_props e = [] \<Longrightarrow> getElements q els = []"
  by (induction els) auto

lemma update_first_tag_register:
  assumes "update_first_tag t (register x k) els = Some els'"
    and "\<forall>e \<in> set els. e_props e = [] \<and> \<not> e_disabled e \<and> \<not> e_readonly e"
  shows "getElements q els' = (if q = x then [k] else [])"
  using assms
proof (induction els arbitrary: els')
  case Nil
  then show ?case by simp
next
  case (Cons e es)
  show ?case
  proof (cases "e_tag e = t")
    case True
    with Cons.prems have "els' = register x k e # es" by simp
    with Cons.prems(2) show ?thesis by (simp add: register_def getElements_no_props)
  next
    case False
    with Cons.prems(1) obtain es' where "update_first_tag t (register x k) es = Some es'" "els' = e # es'" by auto
    with Cons.IH Cons.prems(2) show ?thesis by simp
  qed
qed

lemma validation_after_render_register:
  "validation_after_render x k els = Some els' \<Longrightarrow> \<forall>e \<in> set els. e_props e = [] \<and> \<not> e_disabled e \<and> \<not> e_readonly e
   \<Longrightarrow> getElements q els' = (if q = x then [k] else [])"
  unfolding validation_after_render_def
  by (auto split: option.splits dest: update_first_tag_register[where q = q])

text \<open>
  C34.  The two configuration modules disagree about where fields are
  registered.  A page presets \<open>$stForm.validationPropertyName\<close> to a name
  \<open>x\<close> other than the one \<open>config.ts\<close> derives from the environment,
  then \<open>st-form.ts\<close> and \<open>config.ts\<close> load in that order.
  \<open>Validation\<close> reads \<open>stForm\<close> and registers on its input under
  \<open>x\<close>; \<open>Form\<close> reads \<open>getFormConfig()\<close> and looks under the other
  name, so it finds none of the fields and validates vacuously.
\<close>

theorem config_mismatch_hides_fields:
  assumes "cfg_wf g" and "g_slot g = Some a" and "g_heap g a = Some c"
    and "cfg_validationPropertyName c = FStr x" and "x \<noteq> []"
    and "js_or (env_val env ''ST_FORM_VALIDATION_PROPERTY_NAME'') (FStr ''VALIDATION'') = FStr p" and "p \<noteq> x"
    and "validation_after_render x k els = Some els'"
    and "\<forall>e \<in> set els. e_props e = [] \<and> \<not> e_disabled e \<and> \<not> e_readonly e"
  shows "let g' = config_module env (st_form_module env g)
         in map_option cfg_validationPropertyName (stForm g') = Some (FStr x)
            \<and> map_option cfg_validationPropertyName (getFormConfig g') = Some (FStr p)
            \<and> getElements x els' = [k] \<and> getElements p els' = []"
proof -
  have wf: "cfg_wf (st_form_module env g)" by (rule cfg_wf_st_form_module[OF assms(1-3)])
  have st: "map_option cfg_validationPropertyName (stForm (st_form_module env g)) = Some (FStr x)"
    using assms(2-5) by (simp add: stForm_st_form_module)
  have fc: "map_option cfg_validationPropertyName (getFormConfig (config_module env (st_form_module env g))) = Some (FStr p)"
    using config_module_sel[OF wf, of env] assms(6) by (simp add: defaultFormConfig_readers)
  show ?thesis
    using config_module_sel[OF wf, of env] st fc assms(7) validation_after_render_register[OF assms(8,9)]
    by (simp add: Let_def)
qed

theorem config_mismatch_hides_fields_witness:
  "let g' = config_module Map.empty (st_form_module Map.empty ex_global)
   in map_option cfg_validationPropertyName (stForm g') = Some (FStr ''X'')
      \<and> map_option cfg_validationPropertyName (getFormConfig g') = Some (FStr ''VALIDATION'')
      \<and> getElements ''X'' [register ''X'' 7 (ex_el ''a'' ''x'')] = [7]
      \<and> getElements ''VALIDATION'' [register ''X'' 7 (ex_el ''a'' ''x'')] = []"
proof -
  have h1: "cfg_wf ex_global" by (simp add: cfg_wf_def ex_global_def)
  have h2: "g_slot ex_global = Some 0" and h3: "g_heap ex_global 0 = Some (empty_cfg\<lparr>cfg_validationPropertyName := FStr ''X''\<rparr>)"
    by (simp_all add: ex_global_def)
  have h4: "cfg_validationPropertyName (empty_cfg\<lparr>cfg_validationPropertyName := FStr ''X''\<rparr>) = FStr ''X''" by simp
  have h5: "''X'' \<noteq> []" by simp
  have h6: "js_or (env_val Map.empty ''ST_FORM_VALIDATION_PROPERTY_NAME'') (FStr ''VALIDATION'') = FStr ''VALIDATION''"
    by (simp add: js_or_def env_val_def)
  have h7: "''VALIDATION'' \<noteq> ''X''" by simp
  have h8: "validation_after_render ''X'' 7 [ex_el ''a'' ''x''] = Some [register ''X'' 7 (ex_el ''a'' ''x'')]"
    by (simp add: validation_after_render_def ex_el_def)
  have h9: "\<forall>e \<in> set [ex_el ''a'' ''x'']. e_props e = [] \<and> \<not> e_disabled e \<and> \<not> e_readonly e"
    by (simp add: ex_el_def)
  show ?thesis using config_mismatch_hides_fields[OF h1 h2 h3 h4 h5 h6 h7 h8 h9] .
qed

end
